theory Spec2Isabelle
  imports Main
begin

text \<open>
  A model of \<open>luigi/contrib/vertica.py\<close>: the target \<open>VerticaTarget\<close> with its marker
  table, and the task \<open>CopyToTable\<close> that stages rows in a temporary file, copies them
  into a table and marks the load as done. The database driver, the task's hooks and the
  clock are parameters of which nothing is assumed; what the program does is read off the
  trace of the calls it makes to them. Calls of the logger are left out, and \<open>assert\<close> is
  taken as executed.
\<close>

section \<open>Python values, strings and exceptions\<close>

text \<open>
  A Python text string is a sequence of code points, a byte string a sequence of
  numbers below 256. String literals of the source are written \<open>lit ''...''\<close>.
\<close>

type_synonym ustr = "nat list"

type_synonym bytes = "nat list"

definition lit :: "string \<Rightarrow> ustr" where
  "lit s = map of_char s"

text \<open>
  The values that occur as row fields, as the port and inside column descriptions:
  \<open>None\<close>, booleans, integers and text. Floating-point fields are left out: their
  text rendering is the interpreter's shortest-repr algorithm.
\<close>

datatype pyval = PNone | PBool bool | PInt int | PStr ustr

text \<open>An entry of the \<open>columns\<close> attribute: a column name, or a tuple.\<close>

datatype colspec = ColStr ustr | ColTuple "pyval list"

text \<open>
  Exceptions. \<open>SpecifyTableColumns\<close> is \<open>Exception("table and columns need to be
  specified")\<close> of \<open>run\<close>; \<open>ColumnsShape c\<close> is the \<open>Exception('columns must consist
  of column strings or (column string, type string) tuples (was %r ...)' % (c,))\<close> of
  \<open>copy\<close>. \<open>MissingRelation\<close> and \<open>DuplicateObject\<close> are the two classes of
  \<open>vertica_python.errors\<close> that the source catches; \<open>OtherError\<close> is any other
  exception raised by the driver or by a hook.
\<close>

datatype exn =
    MissingRelation
  | DuplicateObject
  | AssertionError
  | SpecifyTableColumns
  | ColumnsShape colspec
  | ValueError
  | TypeError
  | IndexError
  | UnicodeEncodeError
  | OtherError ustr

section \<open>The driver, the temporary file and the trace of calls\<close>

type_synonym conn = nat

datatype sqlparam = ParamStr ustr | ParamTime nat

text \<open>The temporary file of \<open>run\<close>: its contents and the current position.\<close>

record tmpfile =
  fdata :: bytes
  fpos :: nat

text \<open>
  Every call the source makes to the driver, to a task hook, to the clock or to its
  temporary file is recorded with its outcome, in program order. A cursor is identified
  with the connection it was created from (\<open>connection.cursor()\<close> only builds an object).
\<close>

datatype call =
    Connect ustr pyval ustr ustr ustr
  | Execute conn ustr "(ustr \<times> sqlparam) list option"
  | Fetchone conn
  | Commit conn
  | ResetConnection conn
  | CursorCopy conn ustr tmpfile
  | ConnExit conn
  | Now
  | InitCopy conn
  | PostCopy conn
  | CreateTable conn
  | TmpCreate
  | TmpWrite bytes
  | TmpSeek nat
  | TmpExit

datatype retval = RNone | RConn conn | RRow "pyval list option" | RTime nat

type_synonym event = "call \<times> (exn + retval)"

text \<open>
  The state: the trace so far and the world outside the program (the database server and
  whatever else the driver and the hooks can see), of which nothing is assumed.
\<close>

record 'w st =
  trace :: "event list"
  world :: 'w

text \<open>
  The driver \<open>vertica_python\<close>: each operation either raises or returns, and changes the
  world. \<open>drv_copy\<close> also reports where it left the file position. Leaving the scope of a
  \<open>with\<close> on a connection (\<open>drv_exit\<close>) releases the connection; it neither swallows nor
  replaces an exception in flight.
\<close>

record 'w driver =
  drv_connect :: "ustr \<Rightarrow> pyval \<Rightarrow> ustr \<Rightarrow> ustr \<Rightarrow> ustr \<Rightarrow> 'w \<Rightarrow> (exn + conn) \<times> 'w"
  drv_execute :: "conn \<Rightarrow> ustr \<Rightarrow> (ustr \<times> sqlparam) list option \<Rightarrow> 'w \<Rightarrow> (exn + unit) \<times> 'w"
  drv_fetchone :: "conn \<Rightarrow> 'w \<Rightarrow> (exn + pyval list option) \<times> 'w"
  drv_commit :: "conn \<Rightarrow> 'w \<Rightarrow> (exn + unit) \<times> 'w"
  drv_reset_connection :: "conn \<Rightarrow> 'w \<Rightarrow> (exn + unit) \<times> 'w"
  drv_copy :: "conn \<Rightarrow> ustr \<Rightarrow> tmpfile \<Rightarrow> 'w \<Rightarrow> (exn + unit) \<times> nat \<times> 'w"
  drv_exit :: "conn \<Rightarrow> 'w \<Rightarrow> 'w"
  drv_now :: "'w \<Rightarrow> nat \<times> 'w"

definition init :: "'w \<Rightarrow> 'w st" where
  "init w = \<lparr>trace = [], world = w\<rparr>"

definition log :: "call \<Rightarrow> retval \<Rightarrow> 'w st \<Rightarrow> 'w st" where
  "log c r s = s\<lparr>trace := trace s @ [(c, Inr r)]\<rparr>"

definition perform ::
  "call \<Rightarrow> ('a \<Rightarrow> retval) \<Rightarrow> ('w \<Rightarrow> (exn + 'a) \<times> 'w) \<Rightarrow> 'w st \<Rightarrow> (exn + 'a) \<times> 'w st" where
  "perform c ret f s =
     (case f (world s) of
        (r, w') \<Rightarrow> (r, \<lparr>trace = trace s @ [(c, map_sum id ret r)], world = w'\<rparr>))"

text \<open>Sequencing: an exception of the first part skips the second.\<close>

definition seq ::
  "('s \<Rightarrow> (exn + 'a) \<times> 's) \<Rightarrow> ('a \<Rightarrow> 's \<Rightarrow> (exn + 'b) \<times> 's) \<Rightarrow> 's \<Rightarrow> (exn + 'b) \<times> 's" where
  "seq m k s = (case m s of (Inl e, s') \<Rightarrow> (Inl e, s') | (Inr x, s') \<Rightarrow> k x s')"

definition lift :: "exn + 'a \<Rightarrow> 's \<Rightarrow> (exn + 'a) \<times> 's" where
  "lift r s = (r, s)"

definition execute ::
  "'w driver \<Rightarrow> conn \<Rightarrow> ustr \<Rightarrow> (ustr \<times> sqlparam) list option \<Rightarrow> 'w st \<Rightarrow> (exn + unit) \<times> 'w st" where
  "execute drv c sql ps = perform (Execute c sql ps) (\<lambda>_. RNone) (drv_execute drv c sql ps)"

definition fetchone :: "'w driver \<Rightarrow> conn \<Rightarrow> 'w st \<Rightarrow> (exn + pyval list option) \<times> 'w st" where
  "fetchone drv c = perform (Fetchone c) RRow (drv_fetchone drv c)"

definition commit :: "'w driver \<Rightarrow> conn \<Rightarrow> 'w st \<Rightarrow> (exn + unit) \<times> 'w st" where
  "commit drv c = perform (Commit c) (\<lambda>_. RNone) (drv_commit drv c)"

definition reset_connection :: "'w driver \<Rightarrow> conn \<Rightarrow> 'w st \<Rightarrow> (exn + unit) \<times> 'w st" where
  "reset_connection drv c = perform (ResetConnection c) (\<lambda>_. RNone) (drv_reset_connection drv c)"

definition now :: "'w driver \<Rightarrow> 'w st \<Rightarrow> (exn + nat) \<times> 'w st" where
  "now drv = perform Now RTime (\<lambda>w. case drv_now drv w of (t, w') \<Rightarrow> (Inr t, w'))"

definition conn_exit :: "'w driver \<Rightarrow> conn \<Rightarrow> 'w st \<Rightarrow> 'w st" where
  "conn_exit drv c s = \<lparr>trace = trace s @ [(ConnExit c, Inr RNone)], world = drv_exit drv c (world s)\<rparr>"

text \<open>\<open>with connection: body\<close>, once the connection is open.\<close>

definition with_connection ::
  "'w driver \<Rightarrow> conn \<Rightarrow> ('w st \<Rightarrow> (exn + 'a) \<times> 'w st) \<Rightarrow> 'w st \<Rightarrow> (exn + 'a) \<times> 'w st" where
  "with_connection drv c body s = (case body s of (r, s') \<Rightarrow> (r, conn_exit drv c s'))"

definition cursor_copy ::
  "'w driver \<Rightarrow> conn \<Rightarrow> ustr \<Rightarrow> tmpfile \<Rightarrow> 'w st \<Rightarrow> (exn + unit) \<times> tmpfile \<times> 'w st" where
  "cursor_copy drv c sql f s =
     (case drv_copy drv c sql f (world s) of
        (r, p, w') \<Rightarrow>
          (r, f\<lparr>fpos := p\<rparr>,
           \<lparr>trace = trace s @ [(CursorCopy c sql f, map_sum id (\<lambda>_. RNone) r)], world = w'\<rparr>))"

section \<open>VerticaTarget\<close>

text \<open>
  The instance attributes set by \<open>__init__\<close>, and the two class attributes
  \<open>marker_table\<close> (read from the configuration, \<open>table_updates\<close> by default) and
  \<open>use_db_timestamps\<close>.
\<close>

record target =
  host :: ustr
  port :: pyval
  database :: ustr
  user :: ustr
  password :: ustr
  table :: ustr
  update_id :: ustr
  marker_table :: ustr
  use_db_timestamps :: bool

record vertica_cls =
  cls_marker_table :: ustr
  cls_use_db_timestamps :: bool

definition default_cls :: vertica_cls where
  "default_cls = \<lparr>cls_marker_table = lit ''table_updates'', cls_use_db_timestamps = True\<rparr>"

definition colon :: nat where
  "colon = 58"

text \<open>\<open>s.split(sep)\<close> for a separator of one character.\<close>

fun split_on :: "nat \<Rightarrow> ustr \<Rightarrow> ustr list" where
  "split_on sep [] = [] # []"
| "split_on sep (x # xs) =
     (if x = sep then [] # split_on sep xs
      else (case split_on sep xs of [] \<Rightarrow> [x] # [] | p # ps \<Rightarrow> (x # p) # ps))"

text \<open>
  \<open>VerticaTarget.__init__\<close>. Unpacking \<open>host.split(':')\<close> into two names raises
  \<open>ValueError\<close> unless the split has exactly two parts.
\<close>

definition VerticaTarget ::
  "vertica_cls \<Rightarrow> ustr \<Rightarrow> ustr \<Rightarrow> ustr \<Rightarrow> ustr \<Rightarrow> ustr \<Rightarrow> ustr \<Rightarrow> pyval \<Rightarrow> exn + target" where
  "VerticaTarget cls host' database' user' password' table' update_id' port' =
     (if colon \<in> set host' then
        (case split_on colon host' of
           [h, p] \<Rightarrow>
             Inr \<lparr>host = h, port = PStr p, database = database', user = user',
                  password = password', table = table', update_id = update_id',
                  marker_table = cls_marker_table cls,
                  use_db_timestamps = cls_use_db_timestamps cls\<rparr>
         | _ \<Rightarrow> Inl ValueError)
      else
        Inr \<lparr>host = host', port = port', database = database', user = user',
             password = password', table = table', update_id = update_id',
             marker_table = cls_marker_table cls,
             use_db_timestamps = cls_use_db_timestamps cls\<rparr>)"

definition connect :: "'w driver \<Rightarrow> target \<Rightarrow> 'w st \<Rightarrow> (exn + conn) \<times> 'w st" where
  "connect drv tgt =
     perform (Connect (host tgt) (port tgt) (database tgt) (user tgt) (password tgt)) RConn
       (drv_connect drv (host tgt) (port tgt) (database tgt) (user tgt) (password tgt))"

definition marker_ddl :: "target \<Rightarrow> ustr" where
  "marker_ddl tgt =
     (if use_db_timestamps tgt then
        lit ''CREATE TABLE '' @ marker_table tgt @ lit '' (''
          @ lit ''update_id VARCHAR PRIMARY KEY, ''
          @ lit ''target_table VARCHAR, ''
          @ lit ''inserted TIMESTAMP DEFAULT NOW()''
          @ lit '')''
      else
        lit ''CREATE TABLE '' @ marker_table tgt @ lit '' (''
          @ lit ''update_id VARCHAR PRIMARY KEY, ''
          @ lit ''target_table VARCHAR, ''
          @ lit ''inserted TIMESTAMP''
          @ lit '')'')"

text \<open>
  \<open>create_marker_table\<close>: the DDL runs on a connection of its own, which the \<open>with\<close>
  leaves whatever the outcome; only \<open>DuplicateObject\<close> is caught.
\<close>

definition create_marker_table :: "'w driver \<Rightarrow> target \<Rightarrow> 'w st \<Rightarrow> (exn + unit) \<times> 'w st" where
  "create_marker_table drv tgt =
     seq (connect drv tgt)
       (\<lambda>connection. with_connection drv connection
          (\<lambda>s. case execute drv connection (marker_ddl tgt) None s of
                  (Inl e, s') \<Rightarrow> if e = DuplicateObject then (Inr (), s') else (Inl e, s')
                | (Inr u, s') \<Rightarrow> (Inr (), s')))"

definition select_sql :: "target \<Rightarrow> ustr" where
  "select_sql tgt =
     lit ''SELECT 1 FROM '' @ marker_table tgt @ lit '' ''
       @ lit ''WHERE update_id = :uid ''
       @ lit ''LIMIT 1''"

text \<open>
  \<open>exists\<close>: a \<open>MissingRelation\<close> raised by the query or by the fetch gives
  \<open>row = None\<close>; the result is \<open>row is not None\<close>.
\<close>

definition exists :: "'w driver \<Rightarrow> target \<Rightarrow> conn option \<Rightarrow> 'w st \<Rightarrow> (exn + bool) \<times> 'w st" where
  "exists drv tgt connection =
     seq (case connection of None \<Rightarrow> connect drv tgt | Some c \<Rightarrow> lift (Inr c))
       (\<lambda>cursor.
          seq (\<lambda>s. case seq (execute drv cursor (select_sql tgt)
                                (Some [(lit ''uid'', ParamStr (update_id tgt))]))
                            (\<lambda>u. fetchone drv cursor) s of
                       (Inl e, s') \<Rightarrow> if e = MissingRelation then (Inr None, s') else (Inl e, s')
                     | (Inr row, s') \<Rightarrow> (Inr row, s'))
            (\<lambda>row. lift (Inr (row \<noteq> None))))"

definition insert_sql :: "target \<Rightarrow> ustr" where
  "insert_sql tgt =
     (if use_db_timestamps tgt then
        lit ''INSERT INTO '' @ marker_table tgt @ lit '' (update_id, target_table) ''
          @ lit ''VALUES (:uid, :table)''
      else
        lit ''INSERT INTO '' @ marker_table tgt @ lit '' (update_id, target_table, inserted) ''
          @ lit ''VALUES (:uid, :table, :time)'')"

definition insert_marker :: "'w driver \<Rightarrow> target \<Rightarrow> conn \<Rightarrow> 'w st \<Rightarrow> (exn + unit) \<times> 'w st" where
  "insert_marker drv tgt connection =
     (if use_db_timestamps tgt then
        execute drv connection (insert_sql tgt)
          (Some [(lit ''uid'', ParamStr (update_id tgt)), (lit ''table'', ParamStr (table tgt))])
      else
        seq (now drv)
          (\<lambda>t. execute drv connection (insert_sql tgt)
                  (Some [(lit ''uid'', ParamStr (update_id tgt)), (lit ''table'', ParamStr (table tgt)),
                         (lit ''time'', ParamTime t)])))"

text \<open>\<open>touch\<close>; the last line is the \<open>assert\<close>.\<close>

definition touch :: "'w driver \<Rightarrow> target \<Rightarrow> conn option \<Rightarrow> 'w st \<Rightarrow> (exn + unit) \<times> 'w st" where
  "touch drv tgt connection =
     seq (create_marker_table drv tgt)
       (\<lambda>u. seq (case connection of None \<Rightarrow> connect drv tgt | Some c \<Rightarrow> lift (Inr c))
          (\<lambda>c. seq (insert_marker drv tgt c)
             (\<lambda>u. seq (commit drv c)
                (\<lambda>u. seq (exists drv tgt (Some c))
                   (\<lambda>b. lift (if b then Inr () else Inl AssertionError))))))"

section \<open>Staging: map_column, join and the UTF-8 encoding\<close>

text \<open>Python's \<open>==\<close> on these values: booleans and integers compare as numbers.\<close>

fun py_num :: "pyval \<Rightarrow> int option" where
  "py_num (PBool b) = Some (if b then 1 else 0)"
| "py_num (PInt i) = Some i"
| "py_num v = None"

fun py_eq :: "pyval \<Rightarrow> pyval \<Rightarrow> bool" where
  "py_eq PNone PNone = True"
| "py_eq (PStr a) (PStr b) = (a = b)"
| "py_eq a b = (py_num a \<noteq> None \<and> py_num a = py_num b)"

text \<open>\<open>v in vs\<close>.\<close>

definition py_in :: "pyval \<Rightarrow> pyval list \<Rightarrow> bool" where
  "py_in v vs = list_ex (py_eq v) vs"

fun digits :: "nat \<Rightarrow> ustr" where
  "digits n = (if n < 10 then [48 + n] else digits (n div 10) @ [48 + n mod 10])"

text \<open>\<open>six.text_type(v)\<close>.\<close>

fun text_type :: "pyval \<Rightarrow> ustr" where
  "text_type PNone = lit ''None''"
| "text_type (PBool b) = (if b then lit ''True'' else lit ''False'')"
| "text_type (PInt i) = (if i < 0 then lit ''-'' @ digits (nat (- i)) else digits (nat i))"
| "text_type (PStr s) = s"

text \<open>\<open>sep.join(parts)\<close>.\<close>

fun join :: "ustr \<Rightarrow> ustr list \<Rightarrow> ustr" where
  "join sep [] = []"
| "join sep [x] = x"
| "join sep (x # y # ys) = x @ sep @ join sep (y # ys)"

definition newline :: ustr where
  "newline = [10]"

text \<open>
  \<open>text.encode('utf-8')\<close>: each code point becomes one to four bytes; a surrogate
  (and a number that is no code point) raises \<open>UnicodeEncodeError\<close>.
\<close>

definition encodable :: "nat \<Rightarrow> bool" where
  "encodable c = (c < 0xD800 \<or> (0xDFFF < c \<and> c < 0x110000))"

definition utf8_char :: "nat \<Rightarrow> bytes" where
  "utf8_char c =
     (if c < 0x80 then [c]
      else if c < 0x800 then [0xC0 + c div 0x40, 0x80 + c mod 0x40]
      else if c < 0x10000 then [0xE0 + c div 0x1000, 0x80 + c div 0x40 mod 0x40, 0x80 + c mod 0x40]
      else [0xF0 + c div 0x40000, 0x80 + c div 0x1000 mod 0x40, 0x80 + c div 0x40 mod 0x40,
            0x80 + c mod 0x40])"

definition utf8_encode :: "ustr \<Rightarrow> exn + bytes" where
  "utf8_encode s =
     (if list_all encodable s then Inr (concat (map utf8_char s)) else Inl UnicodeEncodeError)"

section \<open>CopyToTable\<close>

text \<open>
  The attributes of a task and the hooks a subclass overrides. \<open>rows\<close> is the finite
  sequence the generator yields. The hooks receive the connection and act on the world.
\<close>

record 'w task =
  task_host :: ustr
  task_database :: ustr
  task_user :: ustr
  task_password :: ustr
  task_table :: ustr
  task_update_id :: ustr
  columns :: "colspec list"
  column_separator :: ustr
  null_values :: "pyval list"
  rows :: "pyval list list"
  init_copy :: "conn \<Rightarrow> 'w \<Rightarrow> (exn + unit) \<times> 'w"
  post_copy :: "conn \<Rightarrow> 'w \<Rightarrow> (exn + unit) \<times> 'w"
  create_table :: "conn \<Rightarrow> 'w \<Rightarrow> (exn + unit) \<times> 'w"

definition map_column :: "'w task \<Rightarrow> pyval \<Rightarrow> ustr" where
  "map_column task v = (if py_in v (null_values task) then [] else text_type v)"

definition output_target :: "vertica_cls \<Rightarrow> 'w task \<Rightarrow> exn + target" where
  "output_target cls task =
     VerticaTarget cls (task_host task) (task_database task) (task_user task)
       (task_password task) (task_table task) (task_update_id task) PNone"

text \<open>\<open>c[0]\<close> for an entry of \<open>columns\<close>.\<close>

fun item0 :: "colspec \<Rightarrow> exn + pyval" where
  "item0 (ColStr s) = (case s of [] \<Rightarrow> Inl IndexError | x # xs \<Rightarrow> Inr (PStr [x]))"
| "item0 (ColTuple vs) = (case vs of [] \<Rightarrow> Inl IndexError | v # va \<Rightarrow> Inr v)"

text \<open>A list comprehension: the first element that raises ends it.\<close>

fun collect :: "('a \<Rightarrow> exn + 'b) \<Rightarrow> 'a list \<Rightarrow> exn + 'b list" where
  "collect g [] = Inr []"
| "collect g (x # xs) =
     (case g x of
        Inl e \<Rightarrow> Inl e
      | Inr y \<Rightarrow> (case collect g xs of Inl e \<Rightarrow> Inl e | Inr ys \<Rightarrow> Inr (y # ys)))"

text \<open>
  What \<open>sep.join\<close> sees of an item: its text when it is a string, nothing otherwise
  (then \<open>join\<close> raises \<open>TypeError\<close>).
\<close>

fun col_text :: "colspec \<Rightarrow> ustr option" where
  "col_text (ColStr s) = Some s"
| "col_text (ColTuple vs) = None"

fun val_text :: "pyval \<Rightarrow> ustr option" where
  "val_text (PStr s) = Some s"
| "val_text v = None"

definition join_items :: "ustr \<Rightarrow> ustr option list \<Rightarrow> exn + ustr" where
  "join_items sep items =
     (if None \<in> set items then Inl TypeError else Inr (join sep (map the items)))"

text \<open>The first lines of \<open>copy\<close>: only \<open>columns[0]\<close> decides the branch.\<close>

definition column_names :: "colspec list \<Rightarrow> exn + ustr option list" where
  "column_names cols =
     (case cols of
        [] \<Rightarrow> Inl IndexError
      | c0 # cs \<Rightarrow>
          (case c0 of
             ColStr n \<Rightarrow> Inr (map col_text cols)
           | ColTuple vs \<Rightarrow>
               if length vs = 2 then collect (\<lambda>c. map_sum id val_text (item0 c)) cols
               else Inl (ColumnsShape c0)))"

definition copy_sql :: "'w task \<Rightarrow> exn + ustr" where
  "copy_sql task =
     (case column_names (columns task) of
        Inl e \<Rightarrow> Inl e
      | Inr names \<Rightarrow>
          (case join_items (lit '','') names of
             Inl e \<Rightarrow> Inl e
           | Inr cols \<Rightarrow>
               Inr (lit ''COPY '' @ task_table task @ lit '' ('' @ cols
                      @ lit '') FROM STDIN DELIMITER '' @ [39] @ column_separator task @ [39]
                      @ lit '' '')))"

definition copy ::
  "'w driver \<Rightarrow> 'w task \<Rightarrow> conn \<Rightarrow> tmpfile \<Rightarrow> 'w st \<Rightarrow> (exn + unit) \<times> tmpfile \<times> 'w st" where
  "copy drv task cursor file s =
     (case copy_sql task of
        Inl e \<Rightarrow> (Inl e, file, s)
      | Inr sql \<Rightarrow> cursor_copy drv cursor sql file s)"

text \<open>\<open>tmp_file.write(b)\<close> at the current position.\<close>

definition tmp_write :: "tmpfile \<Rightarrow> bytes \<Rightarrow> tmpfile" where
  "tmp_write f b =
     \<lparr>fdata = take (fpos f) (fdata f) @ b @ drop (fpos f + length b) (fdata f),
      fpos = fpos f + length b\<rparr>"

definition rowstr :: "'w task \<Rightarrow> pyval list \<Rightarrow> ustr" where
  "rowstr task row = join (column_separator task) (map (map_column task) row) @ newline"

text \<open>The loop over \<open>self.rows()\<close> (the progress message every 100000 rows is left out).\<close>

fun stage_rows :: "'w task \<Rightarrow> pyval list list \<Rightarrow> tmpfile \<Rightarrow> 'w st \<Rightarrow> (exn + tmpfile) \<times> 'w st" where
  "stage_rows task [] f s = (Inr f, s)"
| "stage_rows task (row # rest) f s =
     (case utf8_encode (rowstr task row) of
        Inl e \<Rightarrow> (Inl e, s)
      | Inr b \<Rightarrow> stage_rows task rest (tmp_write f b) (log (TmpWrite b) RNone s))"

text \<open>The body of the \<open>try\<close>: \<open>init_copy\<close>, \<open>copy\<close>, \<open>post_copy\<close>.\<close>

definition copy_attempt ::
  "'w driver \<Rightarrow> 'w task \<Rightarrow> conn \<Rightarrow> tmpfile \<Rightarrow> 'w st \<Rightarrow> (exn + unit) \<times> tmpfile \<times> 'w st" where
  "copy_attempt drv task connection file s =
     (case perform (InitCopy connection) (\<lambda>_. RNone) (init_copy task connection) s of
        (Inl e, s1) \<Rightarrow> (Inl e, file, s1)
      | (Inr u, s1) \<Rightarrow>
          (case copy drv task connection file s1 of
             (Inl e, file2, s2) \<Rightarrow> (Inl e, file2, s2)
           | (Inr u, file2, s2) \<Rightarrow>
               (case perform (PostCopy connection) (\<lambda>_. RNone) (post_copy task connection) s2 of
                  (r, s3) \<Rightarrow> (r, file2, s3))))"

text \<open>
  \<open>for attempt in range(2)\<close>: a normal end of the \<open>try\<close> breaks; \<open>MissingRelation\<close> in
  attempt 0 resets the connection, calls \<open>create_table\<close> and goes on with the next
  attempt; anything else is raised.
\<close>

fun copy_loop ::
  "'w driver \<Rightarrow> 'w task \<Rightarrow> conn \<Rightarrow> nat list \<Rightarrow> tmpfile \<Rightarrow> 'w st \<Rightarrow> (exn + unit) \<times> 'w st" where
  "copy_loop drv task connection [] file s = (Inr (), s)"
| "copy_loop drv task connection (attempt # rest) file s =
     (case copy_attempt drv task connection file s of
        (Inr u, file1, s1) \<Rightarrow> (Inr (), s1)
      | (Inl e, file1, s1) \<Rightarrow>
          if e = MissingRelation then
            if attempt = 0 then
              (case reset_connection drv connection s1 of
                 (Inl e2, s2) \<Rightarrow> (Inl e2, s2)
               | (Inr u, s2) \<Rightarrow>
                   (case perform (CreateTable connection) (\<lambda>_. RNone)
                           (create_table task connection) s2 of
                      (Inl e3, s3) \<Rightarrow> (Inl e3, s3)
                    | (Inr u, s3) \<Rightarrow> copy_loop drv task connection rest file1 s3))
            else (Inl e, s1)
          else (Inl e, s1))"

text \<open>
  \<open>run\<close>. The temporary file is entered first and left last; the connection of
  \<open>self.output().connect()\<close> is entered second and left first.
\<close>

definition run_body ::
  "'w driver \<Rightarrow> vertica_cls \<Rightarrow> 'w task \<Rightarrow> conn \<Rightarrow> 'w st \<Rightarrow> (exn + unit) \<times> 'w st" where
  "run_body drv cls task connection =
     seq (stage_rows task (rows task) \<lparr>fdata = [], fpos = 0\<rparr>)
       (\<lambda>f. seq (\<lambda>s. (Inr (f\<lparr>fpos := 0\<rparr>), log (TmpSeek 0) RNone s))
          (\<lambda>f. seq (copy_loop drv task connection [0, 1] f)
             (\<lambda>u. seq (lift (output_target cls task))
                (\<lambda>tgt. touch drv tgt (Some connection)))))"

definition run :: "'w driver \<Rightarrow> vertica_cls \<Rightarrow> 'w task \<Rightarrow> 'w st \<Rightarrow> (exn + unit) \<times> 'w st" where
  "run drv cls task s =
     (if \<not> (task_table task \<noteq> [] \<and> columns task \<noteq> []) then (Inl SpecifyTableColumns, s)
      else
        (case seq (lift (output_target cls task))
                (\<lambda>tgt. seq (connect drv tgt)
                   (\<lambda>connection. with_connection drv connection (run_body drv cls task connection)))
                (log TmpCreate RNone s) of
           (r, s') \<Rightarrow> (r, log TmpExit RNone s')))"

section \<open>Reading a trace\<close>

definition ok :: "call \<Rightarrow> event" where
  "ok c = (c, Inr RNone)"

definition connect_call :: "target \<Rightarrow> call" where
  "connect_call tgt = Connect (host tgt) (port tgt) (database tgt) (user tgt) (password tgt)"

text \<open>Leaving the two scopes of \<open>run\<close>.\<close>

definition exits :: "conn \<Rightarrow> event list" where
  "exits c = [ok (ConnExit c), ok TmpExit]"

fun is_copy_step :: "call \<Rightarrow> bool" where
  "is_copy_step (InitCopy c) = True"
| "is_copy_step (CursorCopy c sql f) = True"
| "is_copy_step (PostCopy c) = True"
| "is_copy_step c = False"

fun is_loop_call :: "call \<Rightarrow> bool" where
  "is_loop_call (ResetConnection c) = True"
| "is_loop_call (CreateTable c) = True"
| "is_loop_call c = is_copy_step c"

text \<open>The calls only \<open>touch\<close> makes: statements, fetches, commits and the clock.\<close>

fun is_marker_call :: "call \<Rightarrow> bool" where
  "is_marker_call (Execute c sql ps) = True"
| "is_marker_call (Fetchone c) = True"
| "is_marker_call (Commit c) = True"
| "is_marker_call Now = True"
| "is_marker_call c = False"


fun is_tmp_write :: "call \<Rightarrow> bool" where
  "is_tmp_write (TmpWrite b) = True"
| "is_tmp_write c = False"

text \<open>The exceptions raised by the steps of the copy, in the order they were raised.\<close>

definition copy_failures :: "event list \<Rightarrow> exn list" where
  "copy_failures tr = map (projl \<circ> snd) (filter (\<lambda>ev. is_copy_step (fst ev) \<and> isl (snd ev)) tr)"

text \<open>
  \<open>is_attempt task c F evs r\<close>: the events \<open>evs\<close> are one run of the \<open>try\<close> body on
  connection \<open>c\<close> with outcome \<open>r\<close>: \<open>init_copy\<close>; then, unless the columns are rejected,
  \<open>cursor.copy\<close> of the statement on a file satisfying \<open>F\<close>; then \<open>post_copy\<close>; each step
  only when the one before returned.
\<close>

definition is_attempt ::
  "'w task \<Rightarrow> conn \<Rightarrow> (tmpfile \<Rightarrow> bool) \<Rightarrow> event list \<Rightarrow> (exn + unit) \<Rightarrow> bool" where
  "is_attempt task c F evs r =
     (case evs of
        [] \<Rightarrow> False
      | ev1 # evs1 \<Rightarrow>
          fst ev1 = InitCopy c \<and>
          (case snd ev1 of
             Inl e \<Rightarrow> evs1 = [] \<and> r = Inl e
           | Inr v \<Rightarrow>
               (case copy_sql task of
                  Inl e \<Rightarrow> evs1 = [] \<and> r = Inl e
                | Inr sql \<Rightarrow>
                    (case evs1 of
                       [] \<Rightarrow> False
                     | ev2 # evs2 \<Rightarrow>
                         (case fst ev2 of
                            CursorCopy c2 sql2 f \<Rightarrow> c2 = c \<and> sql2 = sql \<and> F f
                          | _ \<Rightarrow> False) \<and>
                         (case snd ev2 of
                            Inl e \<Rightarrow> evs2 = [] \<and> r = Inl e
                          | Inr v2 \<Rightarrow>
                              (case evs2 of
                                 [ev3] \<Rightarrow> fst ev3 = PostCopy c \<and> r = map_sum id (\<lambda>_. ()) (snd ev3)
                               | _ \<Rightarrow> False))))))"

section \<open>A scripted driver\<close>

text \<open>
  A driver for concrete runs: the world is a script of outcomes, and every call takes the
  next one (a normal return when the script is exhausted). A successful \<open>cursor.copy\<close>
  reads the file to its end, a failed one leaves the position.
\<close>

type_synonym script = "(exn + retval) list"

fun pop :: "script \<Rightarrow> (exn + retval) \<times> script" where
  "pop [] = (Inr RNone, [])"
| "pop (r # rs) = (r, rs)"

definition scripted_unit :: "script \<Rightarrow> (exn + unit) \<times> script" where
  "scripted_unit w = (case pop w of (r, w') \<Rightarrow> (map_sum id (\<lambda>_. ()) r, w'))"

definition scripted :: "script driver" where
  "scripted =
     \<lparr>drv_connect = (\<lambda>h p d u pw w.
         case pop w of (r, w') \<Rightarrow> (map_sum id (\<lambda>v. case v of RConn c \<Rightarrow> c | _ \<Rightarrow> 0) r, w')),
      drv_execute = (\<lambda>c sql ps. scripted_unit),
      drv_fetchone = (\<lambda>c w.
         case pop w of (r, w') \<Rightarrow> (map_sum id (\<lambda>v. case v of RRow row \<Rightarrow> row | _ \<Rightarrow> None) r, w')),
      drv_commit = (\<lambda>c. scripted_unit),
      drv_reset_connection = (\<lambda>c. scripted_unit),
      drv_copy = (\<lambda>c sql f w.
         case pop w of
           (Inl e, w') \<Rightarrow> (Inl e, fpos f, w')
         | (Inr v, w') \<Rightarrow> (Inr (), length (fdata f), w')),
      drv_exit = (\<lambda>c w. w),
      drv_now = (\<lambda>w. case pop w of (r, w') \<Rightarrow> (case r of Inr (RTime t) \<Rightarrow> t | _ \<Rightarrow> 0, w'))\<rparr>"

text \<open>The task of the repository's test, with scripted hooks, and its target.\<close>

definition test_task :: "script task" where
  "test_task =
     \<lparr>task_host = lit ''localhost'', task_database = lit ''vertica'', task_user = lit ''dbadmin'',
      task_password = [], task_table = lit ''test_table'', task_update_id = lit ''TestVerticaTask()'',
      columns = [ColTuple [PStr (lit ''test_text''), PStr (lit ''varchar'')],
                 ColTuple [PStr (lit ''test_int''), PStr (lit ''int'')]],
      column_separator = [9], null_values = [PNone],
      rows = [ [PStr (lit ''foo''), PInt 123], [PNone, PStr (lit ''-100'')],
              [PStr [233, 1094, 1199, 25105], PInt 0]],
      init_copy = (\<lambda>c. scripted_unit), post_copy = (\<lambda>c. scripted_unit),
      create_table = (\<lambda>c. scripted_unit)\<rparr>"

definition test_target :: target where
  "test_target =
     \<lparr>host = lit ''localhost'', port = PNone, database = lit ''vertica'', user = lit ''dbadmin'',
      password = [], table = lit ''test_table'', update_id = lit ''TestVerticaTask()'',
      marker_table = lit ''table_updates'', use_db_timestamps = True\<rparr>"

section \<open>The staged buffer and its decoding\<close>

text \<open>
  The bytes one row adds to the temporary file, the contents after a list of rows, and
  the \<open>write\<close> events of staging them.
\<close>


definition row_bytes :: "'w task \<Rightarrow> pyval list \<Rightarrow> bytes" where
  "row_bytes task row = concat (map utf8_char (rowstr task row))"

definition staged :: "'w task \<Rightarrow> pyval list list \<Rightarrow> bytes" where
  "staged task rs = concat (map (row_bytes task) rs)"

definition writes :: "'w task \<Rightarrow> pyval list list \<Rightarrow> event list" where
  "writes task rs = map (\<lambda>row. ok (TmpWrite (row_bytes task row))) rs"

text \<open>The position is at the end of the file, as it is while the rows are written.\<close>


definition at_end :: "tmpfile \<Rightarrow> bool" where
  "at_end f = (fpos f = length (fdata f))"

text \<open>
  \<open>bytes.decode('utf-8')\<close>, the reading side of the staging file: \<open>None\<close> for bytes
  that are not well-formed UTF-8 (a stray or missing continuation byte, an overlong form,
  a surrogate, a number above \<open>0x10FFFF\<close>).
\<close>

definition continuation :: "nat \<Rightarrow> bool" where
  "continuation b = (0x80 \<le> b \<and> b < 0xC0)"

fun utf8_decode :: "bytes \<Rightarrow> ustr option" where
  "utf8_decode [] = Some []"
| "utf8_decode (b # bs) =
     (if b < 0x80 then map_option ((#) b) (utf8_decode bs)
      else if 0xC2 \<le> b \<and> b < 0xE0 then
        (case bs of
           b1 # r \<Rightarrow>
             if continuation b1
             then map_option ((#) ((b - 0xC0) * 0x40 + (b1 - 0x80))) (utf8_decode r)
             else None
         | _ \<Rightarrow> None)
      else if 0xE0 \<le> b \<and> b < 0xF0 then
        (case bs of
           b1 # b2 # r \<Rightarrow>
             if continuation b1 \<and> continuation b2
                \<and> 0x800 \<le> (b - 0xE0) * 0x1000 + (b1 - 0x80) * 0x40 + (b2 - 0x80)
                \<and> encodable ((b - 0xE0) * 0x1000 + (b1 - 0x80) * 0x40 + (b2 - 0x80))
             then map_option ((#) ((b - 0xE0) * 0x1000 + (b1 - 0x80) * 0x40 + (b2 - 0x80)))
                    (utf8_decode r)
             else None
         | _ \<Rightarrow> None)
      else if 0xF0 \<le> b \<and> b < 0xF5 then
        (case bs of
           b1 # b2 # b3 # r \<Rightarrow>
             if continuation b1 \<and> continuation b2 \<and> continuation b3
                \<and> 0x10000 \<le> (b - 0xF0) * 0x40000 + (b1 - 0x80) * 0x1000 + (b2 - 0x80) * 0x40 + (b3 - 0x80)
                \<and> (b - 0xF0) * 0x40000 + (b1 - 0x80) * 0x1000 + (b2 - 0x80) * 0x40 + (b3 - 0x80) < 0x110000
             then map_option
                    ((#) ((b - 0xF0) * 0x40000 + (b1 - 0x80) * 0x1000 + (b2 - 0x80) * 0x40 + (b3 - 0x80)))
                    (utf8_decode r)
             else None
         | _ \<Rightarrow> None)
      else None)"

section \<open>The events of a run\<close>

fun is_cursor_copy :: "call \<Rightarrow> bool" where
  "is_cursor_copy (CursorCopy c sql f) = True"
| "is_cursor_copy c = False"

text \<open>The calls the methods of \<open>VerticaTarget\<close> make.\<close>


fun is_target_call :: "call \<Rightarrow> bool" where
  "is_target_call (Connect h p d u pw) = True"
| "is_target_call (ConnExit c) = True"
| "is_target_call c = is_marker_call c"

text \<open>
  \<open>extends Q s s'\<close>: the trace of \<open>s'\<close> is the trace of \<open>s\<close> followed by calls that
  all satisfy \<open>Q\<close>.
\<close>


definition extends :: "(call \<Rightarrow> bool) \<Rightarrow> 'w st \<Rightarrow> 'w st \<Rightarrow> bool" where
  "extends Q s s' = (\<exists>evs. trace s' = trace s @ evs \<and> list_all (\<lambda>ev. Q (fst ev)) evs)"

text \<open>
  What a run has done when the loop over the attempts starts: the temporary file created,
  the connection \<open>c\<close> opened, every row written, the file rewound.
\<close>


definition run_prefix :: "'w task \<Rightarrow> target \<Rightarrow> conn \<Rightarrow> event list" where
  "run_prefix task tgt c =
     [ok TmpCreate, (connect_call tgt, Inr (RConn c))] @ writes task (rows task) @ [ok (TmpSeek 0)]"

text \<open>
  \<open>loop_events task c d evs r\<close>: the events \<open>evs\<close> and the outcome \<open>r\<close> of the loop
  \<open>for attempt in range(2)\<close> on connection \<open>c\<close> and a file with contents \<open>d\<close>. Either one
  attempt that did not end in \<open>MissingRelation\<close>; or an attempt that did, followed by a
  reset that raised; or by a reset and a \<open>create_table\<close> that raised; or by a reset, a
  \<open>create_table\<close> and one more attempt, whatever its outcome.
\<close>


inductive loop_events :: "'w task \<Rightarrow> conn \<Rightarrow> bytes \<Rightarrow> event list \<Rightarrow> (exn + unit) \<Rightarrow> bool"
  for task :: "'w task" and c :: conn and d :: bytes where
  once: "is_attempt task c (\<lambda>f. f = \<lparr>fdata = d, fpos = 0\<rparr>) att r \<Longrightarrow> r \<noteq> Inl MissingRelation
      \<Longrightarrow> loop_events task c d att r"
| reset_raised: "is_attempt task c (\<lambda>f. f = \<lparr>fdata = d, fpos = 0\<rparr>) att (Inl MissingRelation)
      \<Longrightarrow> loop_events task c d (att @ [(ResetConnection c, Inl e)]) (Inl e)"
| create_raised: "is_attempt task c (\<lambda>f. f = \<lparr>fdata = d, fpos = 0\<rparr>) att (Inl MissingRelation)
      \<Longrightarrow> loop_events task c d (att @ [ok (ResetConnection c), (CreateTable c, Inl e)]) (Inl e)"
| retried: "is_attempt task c (\<lambda>f. f = \<lparr>fdata = d, fpos = 0\<rparr>) att1 (Inl MissingRelation)
      \<Longrightarrow> is_attempt task c (\<lambda>f. fdata f = d) att2 r
      \<Longrightarrow> loop_events task c d (att1 @ [ok (ResetConnection c), ok (CreateTable c)] @ att2) r"

text \<open>The marker query of \<open>exists\<close> on connection \<open>c\<close>.\<close>


definition select_call :: "target \<Rightarrow> conn \<Rightarrow> call" where
  "select_call tgt c = Execute c (select_sql tgt) (Some [(lit ''uid'', ParamStr (update_id tgt))])"


section \<open>Concrete runs\<close>

text \<open>
  Scripts for the scripted driver, in the order the calls consume them, and variants of
  the test task: with a three-element column description first, with one after a pair,
  and without rows.
\<close>


definition retry_script :: script where
  "retry_script = [Inr (RConn 7), Inr RNone, Inl MissingRelation, Inr RNone, Inr RNone,
                   Inr RNone, Inl MissingRelation]"







section \<open>Lemmas\<close>

subsection \<open>Single calls\<close>

lemma perform_trace:
  "perform c ret f s = (r, s') \<Longrightarrow> trace s' = trace s @ [(c, map_sum id ret r)]"
  by (auto simp: perform_def split: prod.splits)

lemma perform_unit_trace:
  "perform c (\<lambda>_. RNone) f s = (r, s') \<Longrightarrow>
     trace s' = trace s @ [(c, case r of Inl e \<Rightarrow> Inl e | Inr u \<Rightarrow> Inr RNone)]"
  by (auto simp: perform_def split: prod.splits sum.splits)

subsection \<open>One attempt and the loop over the attempts\<close>

lemma copy_attempt_trace:
  assumes "copy_attempt drv task c f s = (r, f', s')"
  shows "\<exists>evs. trace s' = trace s @ evs \<and> is_attempt task c (\<lambda>g. g = f) evs r \<and> fdata f' = fdata f"
proof -
  obtain r1 s1 where p1: "perform (InitCopy c) (\<lambda>_. RNone) (init_copy task c) s = (r1, s1)" by force
  note t1 = perform_trace[OF p1]
  show ?thesis
  proof (cases r1)
    case (Inl e)
    with assms p1 have "s' = s1" "r = Inl e" "f' = f" by (auto simp: copy_attempt_def)
    with t1 Inl show ?thesis by (auto simp: is_attempt_def)
  next
    case (Inr u)
    show ?thesis
    proof (cases "copy_sql task")
      case (Inl e)
      with assms p1 Inr have "s' = s1" "r = Inl e" "f' = f" by (auto simp: copy_attempt_def copy_def)
      with t1 Inl Inr show ?thesis by (auto simp: is_attempt_def)
    next
      case sql: (Inr sql)
      obtain r2 p w2 where d: "drv_copy drv c sql f (world s1) = (r2, p, w2)"
        by (metis prod_cases3)
      let ?s2 = "\<lparr>trace = trace s1 @ [(CursorCopy c sql f, map_sum id (\<lambda>_. RNone) r2)], world = w2\<rparr>"
      have cp: "copy drv task c f s1 = (r2, f\<lparr>fpos := p\<rparr>, ?s2)"
        using sql d by (simp add: copy_def cursor_copy_def)
      show ?thesis
      proof (cases r2)
        case (Inl e)
        with assms p1 Inr cp have "s' = ?s2" "r = Inl e" "f' = f\<lparr>fpos := p\<rparr>" by (auto simp: copy_attempt_def)
        with t1 Inl Inr sql show ?thesis by (auto simp: is_attempt_def)
      next
        case r2: (Inr u2)
        obtain r3 s3 where p3: "perform (PostCopy c) (\<lambda>_. RNone) (post_copy task c) ?s2 = (r3, s3)" by force
        with assms p1 Inr cp r2 have "s' = s3" "r = r3" "f' = f\<lparr>fpos := p\<rparr>" by (auto simp: copy_attempt_def)
        with t1 r2 Inr sql perform_trace[OF p3] show ?thesis
          by (auto simp: is_attempt_def map_sum_def split: sum.splits)
      qed
    qed
  qed
qed

lemma is_attempt_mono:
  "is_attempt task c F evs r \<Longrightarrow> (\<And>f. F f \<Longrightarrow> G f) \<Longrightarrow> is_attempt task c G evs r"
  unfolding is_attempt_def
  by (cases evs; cases "tl evs"; cases "copy_sql task"; cases "snd (hd evs)"; cases "fst (hd (tl evs))"; simp)

lemma copy_loop_last:
  "copy_loop drv task c [Suc n] f s = (case copy_attempt drv task c f s of (r, f', s') \<Rightarrow> (r, s'))"
  by (auto split: prod.splits sum.splits)

lemma copy_loop_trace:
  assumes run: "copy_loop drv task c [0, 1] f s = (r, s')" and pos: "fpos f = 0"
  shows "\<exists>evs. trace s' = trace s @ evs \<and> loop_events task c (fdata f) evs r"
proof -
  have f: "f = \<lparr>fdata = fdata f, fpos = 0\<rparr>" using pos by simp
  obtain r1 f1 s1 where a1: "copy_attempt drv task c f s = (r1, f1, s1)" by (metis prod_cases3)
  from copy_attempt_trace[OF a1] obtain att1 where
    t1: "trace s1 = trace s @ att1" and "is_attempt task c (\<lambda>g. g = f) att1 r1" and d1: "fdata f1 = fdata f"
    by blast
  then have i1: "is_attempt task c (\<lambda>g. g = \<lparr>fdata = fdata f, fpos = 0\<rparr>) att1 r1" using f by simp
  show ?thesis
  proof (cases "r1 = Inl MissingRelation")
    case False
    with run a1 have "s' = s1" "r = r1" by (auto split: sum.splits)
    with t1 i1 False show ?thesis by (auto intro: loop_events.once)
  next
    case mr: True
    obtain rr s2 where p2: "reset_connection drv c s1 = (rr, s2)" by force
    have t2: "trace s2 = trace s1 @ [(ResetConnection c, case rr of Inl e \<Rightarrow> Inl e | Inr u \<Rightarrow> Inr RNone)]"
      using p2 unfolding reset_connection_def by (rule perform_unit_trace)
    show ?thesis
    proof (cases rr)
      case (Inl e)
      with run a1 mr p2 have "s' = s2" "r = Inl e" by auto
      with t1 t2 i1 mr Inl show ?thesis by (auto intro: loop_events.reset_raised)
    next
      case rr: (Inr u)
      obtain rc s3 where p3: "perform (CreateTable c) (\<lambda>_. RNone) (create_table task c) s2 = (rc, s3)"
        by force
      note t3 = perform_unit_trace[OF p3]
      show ?thesis
      proof (cases rc)
        case (Inl e)
        with run a1 mr p2 rr p3 have "s' = s3" "r = Inl e" by auto
        with t1 t2 t3 i1 mr rr Inl show ?thesis
          using loop_events.create_raised[of task c "fdata f" att1 e] by (simp add: ok_def)
      next
        case rc: (Inr u')
        obtain r4 f4 s4 where a4: "copy_attempt drv task c f1 s3 = (r4, f4, s4)" by (metis prod_cases3)
        from copy_attempt_trace[OF a4] obtain att2 where
          t4: "trace s4 = trace s3 @ att2" and i4: "is_attempt task c (\<lambda>g. g = f1) att2 r4" by blast
        from i4 d1 have i4': "is_attempt task c (\<lambda>g. fdata g = fdata f) att2 r4"
          by (auto elim: is_attempt_mono)
        from run a1 mr p2 rr p3 rc a4 have "s' = s4" "r = r4"
          by (auto simp: copy_loop_last simp del: copy_loop.simps(2) simp add: copy_loop.simps(2)[of _ _ _ 0])
        with t1 t2 t3 t4 i1 i4' mr rr rc show ?thesis
          using loop_events.retried[of task c "fdata f" att1 att2 r4] by (simp add: ok_def)
      qed
    qed
  qed
qed

subsection \<open>Staging the rows\<close>

lemma tmp_write_at_end:
  "at_end f \<Longrightarrow> tmp_write f b = \<lparr>fdata = fdata f @ b, fpos = length (fdata f @ b)\<rparr>"
  by (simp add: tmp_write_def at_end_def)

lemma stage_rows_ok:
  assumes "list_all (\<lambda>row. list_all encodable (rowstr task row)) rs" and "at_end f"
  shows "stage_rows task rs f s =
     (Inr \<lparr>fdata = fdata f @ staged task rs, fpos = length (fdata f @ staged task rs)\<rparr>,
      s\<lparr>trace := trace s @ writes task rs\<rparr>)"
  using assms
proof (induction rs arbitrary: f s)
  case Nil
  then show ?case by (simp add: staged_def writes_def at_end_def)
next
  case (Cons row rs)
  let ?f = "\<lparr>fdata = fdata f @ row_bytes task row, fpos = length (fdata f @ row_bytes task row)\<rparr>"
  have e: "utf8_encode (rowstr task row) = Inr (row_bytes task row)"
    using Cons.prems(1) by (simp add: utf8_encode_def row_bytes_def)
  have a: "at_end ?f" by (simp add: at_end_def)
  have b: "list_all (\<lambda>row. list_all encodable (rowstr task row)) rs"
    using Cons.prems(1) by simp
  have "stage_rows task rs ?f (log (TmpWrite (row_bytes task row)) RNone s) =
     (Inr \<lparr>fdata = fdata ?f @ staged task rs, fpos = length (fdata ?f @ staged task rs)\<rparr>,
      (log (TmpWrite (row_bytes task row)) RNone s)\<lparr>trace := trace (log (TmpWrite (row_bytes task row)) RNone s) @ writes task rs\<rparr>)"
    by (rule Cons.IH[OF b a])
  then show ?case using e Cons.prems(2)
    by (simp add: tmp_write_at_end staged_def writes_def log_def ok_def)
qed

lemma stage_rows_trace:
  assumes "stage_rows task rs f s = (r, s')"
  shows "world s' = world s \<and>
    (\<exists>k \<le> length rs. trace s' = trace s @ writes task (take k rs) \<and>
       (case r of Inr f' \<Rightarrow> k = length rs \<and> list_all (\<lambda>row. list_all encodable (rowstr task row)) rs
        | Inl e \<Rightarrow> e = UnicodeEncodeError \<and> k < length rs \<and> \<not> list_all encodable (rowstr task (rs ! k))))"
  using assms
proof (induction rs arbitrary: f s)
  case Nil
  then show ?case by (auto simp: writes_def)
next
  case (Cons row rs)
  show ?case
  proof (cases "list_all encodable (rowstr task row)")
    case False
    with Cons.prems have "r = Inl UnicodeEncodeError" "s' = s" by (auto simp: utf8_encode_def)
    with False show ?thesis by (auto simp: writes_def intro!: exI[of _ 0])
  next
    case True
    let ?b = "row_bytes task row"
    from True Cons.prems have "stage_rows task rs (tmp_write f ?b) (log (TmpWrite ?b) RNone s) = (r, s')"
      by (simp add: utf8_encode_def row_bytes_def)
    from Cons.IH[OF this] obtain k where w: "world s' = world s" and k: "k \<le> length rs"
      and t: "trace s' = trace s @ ok (TmpWrite ?b) # writes task (take k rs)"
      and c: "(case r of Inr f' \<Rightarrow> k = length rs \<and> list_all (\<lambda>row. list_all encodable (rowstr task row)) rs
        | Inl e \<Rightarrow> e = UnicodeEncodeError \<and> k < length rs \<and> \<not> list_all encodable (rowstr task (rs ! k)))"
      by (auto simp: log_def ok_def)
    show ?thesis using w k t c True
      by (auto simp: writes_def split: sum.splits intro!: exI[of _ "Suc k"])
  qed
qed

subsection \<open>The shape of a run\<close>

lemma seq_cases:
  assumes "seq m k s = (r, s')"
  obtains (raise) e where "m s = (Inl e, s')" "r = Inl e"
        | (return) x s1 where "m s = (Inr x, s1)" "k x s1 = (r, s')"
  using assms by (auto simp: seq_def split: prod.splits sum.splits)

lemma run_body_cases:
  assumes run: "run_body drv cls task c s = (res, s')" and tgt: "output_target cls task = Inr tgt"
  obtains
    (staging_failed) k where "k < length (rows task)" "res = Inl UnicodeEncodeError"
      "trace s' = trace s @ writes task (take k (rows task))"
      "\<not> list_all encodable (rowstr task (rows task ! k))"
  | (loop_failed) evs e where
      "trace s' = trace s @ writes task (rows task) @ [ok (TmpSeek 0)] @ evs"
      "loop_events task c (staged task (rows task)) evs (Inl e)" "res = Inl e"
  | (touched) evs s1 where
      "trace s1 = trace s @ writes task (rows task) @ [ok (TmpSeek 0)] @ evs"
      "loop_events task c (staged task (rows task)) evs (Inr ())"
      "touch drv tgt (Some c) s1 = (res, s')"
  using run unfolding run_body_def
proof (cases rule: seq_cases)
  case (raise e)
  from stage_rows_trace[OF raise(1)] raise(2) staging_failed show ?thesis by auto
next
  case (return f s1)
  from stage_rows_trace[OF return(1)]
  have enc: "list_all (\<lambda>row. list_all encodable (rowstr task row)) (rows task)" by auto
  have "at_end \<lparr>fdata = [], fpos = 0\<rparr>" by (simp add: at_end_def)
  from stage_rows_ok[OF enc this, of s] return(1)
  have f: "f = \<lparr>fdata = staged task (rows task), fpos = length (staged task (rows task))\<rparr>"
    and s1: "s1 = s\<lparr>trace := trace s @ writes task (rows task)\<rparr>" by simp_all
  let ?f = "\<lparr>fdata = staged task (rows task), fpos = 0\<rparr>"
  let ?s2 = "log (TmpSeek 0) RNone s1"
  have t2: "trace ?s2 = trace s @ writes task (rows task) @ [ok (TmpSeek 0)]"
    using s1 by (simp add: log_def ok_def)
  from return(2) f have
    "seq (copy_loop drv task c [0, 1] ?f)
       (\<lambda>u. seq (lift (output_target cls task)) (\<lambda>tgt. touch drv tgt (Some c))) ?s2 = (res, s')"
    by (simp add: seq_def)
  then show ?thesis
  proof (cases rule: seq_cases)
    case (raise e)
    from copy_loop_trace[OF raise(1)] obtain evs where
      "trace s' = trace ?s2 @ evs" "loop_events task c (staged task (rows task)) evs (Inl e)"
      by auto
    with t2 raise(2) loop_failed show ?thesis by auto
  next
    case (return u s3)
    from copy_loop_trace[OF return(1)] obtain evs where
      "trace s3 = trace ?s2 @ evs" "loop_events task c (staged task (rows task)) evs (Inr ())"
      by auto
    moreover from return(2) tgt have "touch drv tgt (Some c) s3 = (res, s')"
      by (simp add: seq_def lift_def)
    ultimately show ?thesis using t2 touched by auto
  qed
qed

lemma connect_trace:
  "connect drv tgt s = (r, s') \<Longrightarrow> trace s' = trace s @ [(connect_call tgt, map_sum id RConn r)]"
  unfolding connect_def connect_call_def by (rule perform_trace)

lemma conn_exit_trace: "trace (conn_exit drv c s) = trace s @ [ok (ConnExit c)]"
  by (simp add: conn_exit_def ok_def)

lemma run_cases:
  assumes run: "run drv cls task (init w) = (res, s')"
    and truthy: "task_table task \<noteq> []" "columns task \<noteq> []"
  obtains
    (no_target) e where "output_target cls task = Inl e" "res = Inl e"
      "trace s' = [ok TmpCreate, ok TmpExit]"
  | (no_connection) tgt e where "output_target cls task = Inr tgt" "res = Inl e"
      "trace s' = [ok TmpCreate, (connect_call tgt, Inl e), ok TmpExit]"
  | (staging_failed) tgt c k where "output_target cls task = Inr tgt"
      "k < length (rows task)" "res = Inl UnicodeEncodeError"
      "trace s' = [ok TmpCreate, (connect_call tgt, Inr (RConn c))]
                    @ writes task (take k (rows task)) @ exits c"
      "\<not> list_all encodable (rowstr task (rows task ! k))"
  | (loop_failed) tgt c evs e where "output_target cls task = Inr tgt"
      "trace s' = [ok TmpCreate, (connect_call tgt, Inr (RConn c))]
                    @ writes task (rows task) @ [ok (TmpSeek 0)] @ evs @ exits c"
      "loop_events task c (staged task (rows task)) evs (Inl e)" "res = Inl e"
  | (touched) tgt c evs s1 s2 where "output_target cls task = Inr tgt"
      "trace s1 = [ok TmpCreate, (connect_call tgt, Inr (RConn c))]
                    @ writes task (rows task) @ [ok (TmpSeek 0)] @ evs"
      "loop_events task c (staged task (rows task)) evs (Inr ())"
      "touch drv tgt (Some c) s1 = (res, s2)"
      "trace s' = trace s2 @ exits c"
proof -
  let ?s0 = "log TmpCreate RNone (init w)"
  have t0: "trace ?s0 = [ok TmpCreate]" by (simp add: log_def init_def ok_def)
  obtain r1 s1 where body: "seq (lift (output_target cls task))
                (\<lambda>tgt. seq (connect drv tgt)
                   (\<lambda>connection. with_connection drv connection (run_body drv cls task connection)))
                ?s0 = (r1, s1)" by force
  with run truthy have res: "res = r1" and s': "s' = log TmpExit RNone s1"
    by (simp_all add: run_def)
  have tx: "trace s' = trace s1 @ [ok TmpExit]" using s' by (simp add: log_def ok_def)
  from body show ?thesis
  proof (cases rule: seq_cases)
    case (raise e)
    then have "output_target cls task = Inl e" "s1 = ?s0" by (auto simp: lift_def)
    with raise(2) res tx t0 no_target show ?thesis by auto
  next
    case (return tgt s0')
    then have tgt: "output_target cls task = Inr tgt" and "s0' = ?s0" by (auto simp: lift_def)
    with return(2) have "seq (connect drv tgt)
        (\<lambda>connection. with_connection drv connection (run_body drv cls task connection)) ?s0 = (r1, s1)"
      by simp
    then show ?thesis
    proof (cases rule: seq_cases)
      case (raise e)
      from connect_trace[OF raise(1)] raise(2) res tx t0 tgt no_connection show ?thesis by auto
    next
      case (return c s2)
      from connect_trace[OF return(1)] t0
      have t2: "trace s2 = [ok TmpCreate, (connect_call tgt, Inr (RConn c))]" by simp
      obtain rb sb where rb: "run_body drv cls task c s2 = (rb, sb)" by force
      with return(2) have r1: "r1 = rb" and s1: "s1 = conn_exit drv c sb"
        by (simp_all add: with_connection_def)
      have te: "trace s' = trace sb @ exits c"
        using tx s1 by (simp add: conn_exit_trace exits_def)
      from rb tgt show ?thesis
      proof (cases rule: run_body_cases)
        case (staging_failed k)
        with t2 te res r1 tgt show ?thesis
          by (intro that(3)[of tgt k c]) auto
      next
        case (loop_failed evs e)
        with t2 te res r1 tgt show ?thesis
          by (intro that(4)[of tgt c evs e]) auto
      next
        case (touched evs sa)
        with t2 te res r1 tgt show ?thesis
          by (intro that(5)[of tgt sa c evs sb]) auto
      qed
    qed
  qed
qed

subsection \<open>The calls of touch\<close>

lemma extends_refl: "extends Q s s"
  by (simp add: extends_def)

lemma extends_trans: "extends Q s s1 \<Longrightarrow> extends Q s1 s2 \<Longrightarrow> extends Q s s2"
  by (auto simp: extends_def)

lemma extends_perform: "perform c ret f s = (r, s') \<Longrightarrow> Q c \<Longrightarrow> extends Q s s'"
  by (auto simp: extends_def dest: perform_trace)

lemma extends_seq:
  assumes "seq m k s = (r, s')"
    and "\<And>r1 s1. m s = (r1, s1) \<Longrightarrow> extends Q s s1"
    and "\<And>x s1 r2 s2. k x s1 = (r2, s2) \<Longrightarrow> extends Q s1 s2"
  shows "extends Q s s'"
  using assms(1)
proof (cases rule: seq_cases)
  case (raise e)
  then show ?thesis using assms(2) by blast
next
  case (return x s1)
  then show ?thesis using assms(2,3) extends_trans by blast
qed

lemma extends_lift: "lift v s = (r, s') \<Longrightarrow> extends Q s s'"
  by (simp add: lift_def extends_refl)

lemma extends_connect: "connect drv tgt s = (r, s') \<Longrightarrow> extends is_target_call s s'"
  unfolding connect_def by (erule extends_perform) simp

lemma extends_execute: "execute drv c sql ps s = (r, s') \<Longrightarrow> extends is_target_call s s'"
  unfolding execute_def by (erule extends_perform) simp

lemma extends_fetchone: "fetchone drv c s = (r, s') \<Longrightarrow> extends is_target_call s s'"
  unfolding fetchone_def by (erule extends_perform) simp

lemma extends_commit: "commit drv c s = (r, s') \<Longrightarrow> extends is_target_call s s'"
  unfolding commit_def by (erule extends_perform) simp

lemma extends_now: "now drv s = (r, s') \<Longrightarrow> extends is_target_call s s'"
  unfolding now_def by (erule extends_perform) simp

lemma extends_conn_exit: "extends is_target_call s (conn_exit drv c s)"
  by (simp add: extends_def conn_exit_def)

lemma extends_acquire:
  "(case connection of None \<Rightarrow> connect drv tgt | Some c \<Rightarrow> lift (Inr c)) s = (r, s')
     \<Longrightarrow> extends is_target_call s s'"
  by (cases connection) (auto intro: extends_connect extends_lift)

lemma extends_create_marker_table:
  assumes "create_marker_table drv tgt s = (r, s')"
  shows "extends is_target_call s s'"
  using assms unfolding create_marker_table_def
proof (rule extends_seq)
  fix c s1 r2 s2
  assume w: "with_connection drv c
        (\<lambda>s. case execute drv c (marker_ddl tgt) None s of
              (Inl e, s') \<Rightarrow> if e = DuplicateObject then (Inr (), s') else (Inl e, s')
              | (Inr u, s') \<Rightarrow> (Inr (), s')) s1 = (r2, s2)"
  obtain r3 s3 where e: "execute drv c (marker_ddl tgt) None s1 = (r3, s3)" by force
  with w have "s2 = conn_exit drv c s3"
    by (auto simp: with_connection_def split: sum.splits if_splits)
  with extends_execute[OF e] show "extends is_target_call s1 s2"
    using extends_conn_exit extends_trans by blast
qed (rule extends_connect)

lemma extends_exists:
  assumes "exists drv tgt connection s = (r, s')"
  shows "extends is_target_call s s'"
  using assms unfolding exists_def
proof (rule extends_seq)
  fix c s1 r2 s2
  assume "seq (\<lambda>s. case seq (execute drv c (select_sql tgt) (Some [(lit ''uid'', ParamStr (update_id tgt))]))
                       (\<lambda>u. fetchone drv c) s of
                  (Inl e, s') \<Rightarrow> if e = MissingRelation then (Inr None, s') else (Inl e, s')
                | (Inr row, s') \<Rightarrow> (Inr row, s'))
            (\<lambda>row. lift (Inr (row \<noteq> None))) s1 = (r2, s2)"
  then show "extends is_target_call s1 s2"
  proof (rule extends_seq)
    fix r1 sa
    assume a: "(case seq (execute drv c (select_sql tgt) (Some [(lit ''uid'', ParamStr (update_id tgt))]))
                       (\<lambda>u. fetchone drv c) s1 of
                  (Inl e, s') \<Rightarrow> if e = MissingRelation then (Inr None, s') else (Inl e, s')
                | (Inr row, s') \<Rightarrow> (Inr row, s')) = (r1, sa)"
    obtain r3 s3 where q: "seq (execute drv c (select_sql tgt) (Some [(lit ''uid'', ParamStr (update_id tgt))]))
                       (\<lambda>u. fetchone drv c) s1 = (r3, s3)" by force
    with a have "sa = s3" by (auto split: sum.splits if_splits)
    moreover from q have "extends is_target_call s1 s3"
      by (rule extends_seq) (auto intro: extends_execute extends_fetchone)
    ultimately show "extends is_target_call s1 sa" by simp
  qed (rule extends_lift)
qed (rule extends_acquire)

lemma extends_insert_marker:
  assumes "insert_marker drv tgt c s = (r, s')"
  shows "extends is_target_call s s'"
proof (cases "use_db_timestamps tgt")
  case True
  with assms show ?thesis by (auto simp: insert_marker_def intro: extends_execute)
next
  case False
  with assms have "seq (now drv)
          (\<lambda>t. execute drv c (insert_sql tgt)
                  (Some [(lit ''uid'', ParamStr (update_id tgt)), (lit ''table'', ParamStr (table tgt)),
                         (lit ''time'', ParamTime t)])) s = (r, s')"
    by (simp add: insert_marker_def)
  then show ?thesis by (rule extends_seq) (auto intro: extends_now extends_execute)
qed

lemma extends_touch:
  assumes "touch drv tgt connection s = (r, s')"
  shows "extends is_target_call s s'"
  using assms unfolding touch_def
  apply (rule extends_seq)
   apply (erule extends_create_marker_table)
  apply (erule extends_seq)
   apply (erule extends_acquire)
  apply (erule extends_seq)
   apply (erule extends_insert_marker)
  apply (erule extends_seq)
   apply (erule extends_commit)
  apply (erule extends_seq)
   apply (erule extends_exists)
  apply (erule extends_lift)
  done

subsection \<open>Reading attempts and loops\<close>

lemma is_attempt_cases:
  assumes "is_attempt task c F evs r"
  obtains
    (init_raised) e where "evs = [(InitCopy c, Inl e)]" "r = Inl e"
  | (rejected) v e where "evs = [(InitCopy c, Inr v)]" "copy_sql task = Inl e" "r = Inl e"
  | (copy_raised) v sql f e where "evs = [(InitCopy c, Inr v), (CursorCopy c sql f, Inl e)]"
      "copy_sql task = Inr sql" "F f" "r = Inl e"
  | (copied) v sql f v2 r3 where
      "evs = [(InitCopy c, Inr v), (CursorCopy c sql f, Inr v2), (PostCopy c, r3)]"
      "copy_sql task = Inr sql" "F f" "r = map_sum id (\<lambda>_. ()) r3"
proof (cases evs)
  case Nil
  with assms show ?thesis by (simp add: is_attempt_def)
next
  case (Cons ev1 evs1)
  obtain c1 r1 where ev1: "ev1 = (c1, r1)" by force
  from assms Cons ev1 have c1: "c1 = InitCopy c" by (simp add: is_attempt_def)
  show ?thesis
  proof (cases r1)
    case (Inl e)
    with assms Cons ev1 c1 show ?thesis by (intro init_raised[of e]) (auto simp: is_attempt_def)
  next
    case r1: (Inr v)
    show ?thesis
    proof (cases "copy_sql task")
      case (Inl e)
      with assms Cons ev1 c1 r1 show ?thesis by (intro rejected[of v e]) (auto simp: is_attempt_def)
    next
      case sql: (Inr sql)
      show ?thesis
      proof (cases evs1)
        case Nil
        with assms Cons ev1 r1 sql show ?thesis by (simp add: is_attempt_def)
      next
        case evs1: (Cons ev2 evs2)
        obtain c2 r2 where ev2: "ev2 = (c2, r2)" by force
        from assms Cons ev1 r1 sql evs1 ev2 obtain f where c2: "c2 = CursorCopy c sql f" and F: "F f"
          by (cases c2) (auto simp: is_attempt_def)
        show ?thesis
        proof (cases r2)
          case (Inl e)
          with assms Cons ev1 c1 r1 sql evs1 ev2 c2 F show ?thesis
            by (intro copy_raised[of v sql f e]) (auto simp: is_attempt_def)
        next
          case r2: (Inr v2)
          with assms Cons ev1 r1 sql evs1 ev2 c2 obtain ev3 where evs2: "evs2 = [ev3]"
            and p: "fst ev3 = PostCopy c" and r: "r = map_sum id (\<lambda>_. ()) (snd ev3)"
            by (auto simp: is_attempt_def split: list.splits)
          with Cons ev1 c1 r1 sql evs1 ev2 c2 F r2 show ?thesis
            by (intro copied[of v sql f v2 "snd ev3"]) (auto simp: prod_eq_iff)
        qed
      qed
    qed
  qed
qed



lemma is_attempt_accepted:
  "is_attempt task c F evs (Inr u) \<Longrightarrow> \<exists>sql. copy_sql task = Inr sql"
  by (erule is_attempt_cases) auto

lemma is_attempt_returned:
  "is_attempt task c F evs (Inr u) \<Longrightarrow> ev \<in> set evs \<Longrightarrow> \<not> isl (snd ev)"
  by (erule is_attempt_cases) (auto simp: isl_def)


lemma is_attempt_failures:
  "is_attempt task c F evs r \<Longrightarrow> copy_failures evs = [] \<or> (\<exists>e. copy_failures evs = [e] \<and> r = Inl e)"
  by (erule is_attempt_cases) (auto simp: copy_failures_def isl_def)

lemma copy_failures_append [simp]: "copy_failures (xs @ ys) = copy_failures xs @ copy_failures ys"
  by (simp add: copy_failures_def)

lemma copy_failures_other:
  "list_all (\<lambda>ev. \<not> is_copy_step (fst ev)) evs \<Longrightarrow> copy_failures evs = []"
  by (induction evs) (auto simp: copy_failures_def)

lemma writes_not_loop: "list_all (\<lambda>ev. \<not> is_loop_call (fst ev)) (writes task rs)"
  by (induction rs) (auto simp: writes_def ok_def)

lemma target_not_loop: "is_target_call c \<Longrightarrow> \<not> is_loop_call c"
  by (cases c) auto

lemma not_loop_not_step: "\<not> is_loop_call c \<Longrightarrow> \<not> is_copy_step c"
  by (cases c) auto

lemma copy_failures_not_loop:
  "list_all (\<lambda>ev. \<not> is_loop_call (fst ev)) evs \<Longrightarrow> copy_failures evs = []"
  by (rule copy_failures_other) (auto simp: list_all_iff dest: not_loop_not_step)

lemma target_events_not_loop:
  "list_all (\<lambda>ev. is_target_call (fst ev)) evs \<Longrightarrow> list_all (\<lambda>ev. \<not> is_loop_call (fst ev)) evs"
  by (auto simp: list_all_iff dest: target_not_loop)

lemma exits_not_loop: "list_all (\<lambda>ev. \<not> is_loop_call (fst ev)) (exits c)"
  by (simp add: exits_def ok_def)

lemma run_prefix_not_loop: "list_all (\<lambda>ev. \<not> is_loop_call (fst ev)) (run_prefix task tgt c)"
  using writes_not_loop[of task "rows task"]
  by (simp add: run_prefix_def ok_def connect_call_def)






lemma writes_calls:
  "ev \<in> set (writes task rs) \<Longrightarrow> is_tmp_write (fst ev) \<and> snd ev = Inr RNone"
  by (auto simp: writes_def ok_def)




subsection \<open>Evaluating concrete runs\<close>

lemmas run_eval =
  run_def test_task_def output_target_def VerticaTarget_def default_cls_def colon_def lit_def
  seq_def lift_def log_def init_def connect_def perform_def scripted_def
  with_connection_def run_body_def utf8_encode_def rowstr_def map_column_def py_in_def
  encodable_def utf8_char_def newline_def tmp_write_def copy_attempt_def copy_def copy_sql_def
  column_names_def join_items_def cursor_copy_def scripted_unit_def reset_connection_def
  conn_exit_def touch_def create_marker_table_def execute_def commit_def exists_def
  fetchone_def insert_marker_def now_def

subsection \<open>Rejected columns, files and hooks in a loop\<close>






lemma is_attempt_files:
  "is_attempt task c F evs r \<Longrightarrow> (CursorCopy c' sql f, x) \<in> set evs \<Longrightarrow> F f"
  by (erule is_attempt_cases) auto

lemma loop_events_files:
  "loop_events task c d evs r \<Longrightarrow> (CursorCopy c' sql f, x) \<in> set evs \<Longrightarrow> fdata f = d"
  by (erule loop_events.cases) (auto simp: ok_def dest: is_attempt_files)





lemma writes_no_copy: "ev \<in> set (writes task rs) \<Longrightarrow> \<not> is_cursor_copy (fst ev)"
  by (auto simp: writes_def ok_def)

lemma target_call_kind:
  "is_target_call c \<Longrightarrow> \<not> is_tmp_write c \<and> \<not> is_cursor_copy c \<and> \<not> is_copy_step c"
  by (cases c) auto


subsection \<open>Case analyses of the methods of the target\<close>

lemma execute_trace:
  "execute drv c sql ps s = (r, s') \<Longrightarrow>
     trace s' = trace s @ [(Execute c sql ps, case r of Inl e \<Rightarrow> Inl e | Inr u \<Rightarrow> Inr RNone)]"
  unfolding execute_def by (rule perform_unit_trace)

lemma create_marker_table_cases:
  assumes "create_marker_table drv tgt s = (res, s')"
  obtains (no_connection) e where "res = Inl e" "trace s' = trace s @ [(connect_call tgt, Inl e)]"
  | (ran) c x where
      "trace s' = trace s @ [(connect_call tgt, Inr (RConn c)),
                             (Execute c (marker_ddl tgt) None, x), ok (ConnExit c)]"
      "res = (case x of Inl e \<Rightarrow> if e = DuplicateObject then Inr () else Inl e | Inr v \<Rightarrow> Inr ())"
  using assms unfolding create_marker_table_def
proof (cases rule: seq_cases)
  case (raise e)
  from connect_trace[OF raise(1)] raise(2) no_connection show ?thesis by simp
next
  case (return c s1)
  obtain r s2 where ex: "execute drv c (marker_ddl tgt) None s1 = (r, s2)" by force
  from return(2) ex have "s' = conn_exit drv c s2"
    and "res = (case r of Inl e \<Rightarrow> if e = DuplicateObject then Inr () else Inl e | Inr v \<Rightarrow> Inr ())"
    by (auto simp: with_connection_def split: sum.splits if_splits)
  with connect_trace[OF return(1)] execute_trace[OF ex] show ?thesis
    by (intro ran[of c "case r of Inl e \<Rightarrow> Inl e | Inr u \<Rightarrow> Inr RNone"])
       (auto simp: conn_exit_trace split: sum.splits)
qed

lemma exists_cases:
  assumes "exists drv tgt (Some c) s = (res, s')"
  obtains
    (query_raised) e where "trace s' = trace s @ [(select_call tgt c, Inl e)]"
      "res = (if e = MissingRelation then Inr False else Inl e)"
  | (fetch_raised) e where "trace s' = trace s @ [ok (select_call tgt c), (Fetchone c, Inl e)]"
      "res = (if e = MissingRelation then Inr False else Inl e)"
  | (fetched) row where "trace s' = trace s @ [ok (select_call tgt c), (Fetchone c, Inr (RRow row))]"
      "res = Inr (row \<noteq> None)"
proof -
  let ?ps = "Some [(lit ''uid'', ParamStr (update_id tgt))]"
  obtain r1 s1 where e1: "execute drv c (select_sql tgt) ?ps s = (r1, s1)" by force
  note t1 = execute_trace[OF e1]
  show ?thesis
  proof (cases r1)
    case (Inl e)
    with assms e1 have "s' = s1" "res = (if e = MissingRelation then Inr False else Inl e)"
      by (auto simp: exists_def seq_def lift_def split: if_splits)
    with t1 Inl query_raised show ?thesis by (simp add: select_call_def)
  next
    case r1: (Inr u)
    obtain r2 s2 where f: "fetchone drv c s1 = (r2, s2)" by force
    have t2: "trace s2 = trace s1 @ [(Fetchone c, map_sum id RRow r2)]"
      using f unfolding fetchone_def by (rule perform_trace)
    show ?thesis
    proof (cases r2)
      case (Inl e)
      with assms e1 r1 f have "s' = s2" "res = (if e = MissingRelation then Inr False else Inl e)"
        by (auto simp: exists_def seq_def lift_def split: if_splits)
      with t1 t2 r1 Inl fetch_raised show ?thesis by (simp add: select_call_def ok_def)
    next
      case (Inr row)
      with assms e1 r1 f have "s' = s2" "res = Inr (row \<noteq> None)"
        by (auto simp: exists_def seq_def lift_def split: if_splits)
      with t1 t2 r1 Inr fetched show ?thesis by (simp add: select_call_def ok_def)
    qed
  qed
qed




subsection \<open>Splitting the host\<close>

lemma split_on_none: "sep \<notin> set xs \<Longrightarrow> split_on sep xs = [xs]"
  by (induction xs) auto

lemma split_on_first: "sep \<notin> set h \<Longrightarrow> split_on sep (h @ sep # p) = h # split_on sep p"
  by (induction h) auto

lemma split_on_length: "length (split_on sep xs) = Suc (count_list xs sep)"
  by (induction xs) (auto split: list.splits)

lemma count_one_split:
  "count_list xs a = 1 \<Longrightarrow> \<exists>h p. xs = h @ a # p \<and> a \<notin> set h \<and> a \<notin> set p"
proof (induction xs)
  case Nil
  then show ?case by simp
next
  case (Cons x xs)
  show ?case
  proof (cases "x = a")
    case True
    with Cons.prems have "count_list xs a = 0" by simp
    then have "a \<notin> set xs" by (simp add: count_list_0_iff)
    with True show ?thesis by (intro exI[of _ "[]"] exI[of _ xs]) simp
  next
    case False
    with Cons.prems have "count_list xs a = 1" by simp
    from Cons.IH[OF this] obtain h p where "xs = h @ a # p" "a \<notin> set h" "a \<notin> set p" by blast
    with False show ?thesis by (intro exI[of _ "x # h"] exI[of _ p]) simp
  qed
qed

subsection \<open>UTF-8: decoding what was encoded\<close>

lemma shift6: "(q::nat) div 64 * 64 + q mod 64 = q"
  by simp

lemma shift6_scaled: "(q::nat) div 64 * (64 * k) + q mod 64 * k = q * k"
proof -
  have "q * k = (q div 64 * 64 + q mod 64) * k" by (simp only: shift6)
  also have "\<dots> = q div 64 * (64 * k) + q mod 64 * k"
    by (simp only: add_mult_distrib mult.assoc)
  finally show ?thesis by (rule sym)
qed

lemma recombine3: "(c::nat) div 4096 * 4096 + c div 64 mod 64 * 64 + c mod 64 = c"
proof -
  have "c div 4096 = c div 64 div 64" by (simp add: div_mult2_eq)
  with shift6_scaled[of "c div 64" 64] have "c div 4096 * 4096 + c div 64 mod 64 * 64 = c div 64 * 64"
    by simp
  then show ?thesis by simp
qed

lemma recombine4:
  "(c::nat) div 262144 * 262144 + c div 4096 mod 64 * 4096 + c div 64 mod 64 * 64 + c mod 64 = c"
proof -
  have "c div 262144 = c div 4096 div 64" by (simp add: div_mult2_eq)
  with shift6_scaled[of "c div 4096" 4096]
  have "c div 262144 * 262144 + c div 4096 mod 64 * 4096 = c div 4096 * 4096" by simp
  then show ?thesis using recombine3[of c] by simp
qed

lemma utf8_char_decode:
  assumes "encodable c"
  shows "utf8_decode (utf8_char c @ bs) = map_option ((#) c) (utf8_decode bs)"
proof -
  have top: "c < 0x110000" using assms by (auto simp: encodable_def)
  consider (one) "c < 0x80" | (two) "0x80 \<le> c" "c < 0x800" | (three) "0x800 \<le> c" "c < 0x10000"
    | (four) "0x10000 \<le> c"
    by linarith
  then show ?thesis
  proof cases
    case one
    then show ?thesis by (simp add: utf8_char_def)
  next
    case two
    have a: "2 \<le> c div 64" "c div 64 < 32" using two by auto
    have b: "c mod 64 < 64" by simp
    from two a b show ?thesis
      by (simp add: utf8_char_def continuation_def shift6)
  next
    case three
    have a: "c div 4096 < 16" using three by auto
    from three a assms show ?thesis
      by (simp add: utf8_char_def continuation_def recombine3)
  next
    case four
    have a: "c div 262144 < 5" using top by auto
    from four top a show ?thesis
      by (simp add: utf8_char_def continuation_def recombine4)
  qed
qed

lemma utf8_roundtrip:
  "list_all encodable s \<Longrightarrow> utf8_decode (concat (map utf8_char s)) = Some s"
  by (induction s) (simp_all add: utf8_char_decode)

subsection \<open>The file handed to the copy\<close>

lemma run_copy_files:
  assumes run: "run drv cls task (init w) = (res, s')"
    and ev: "(CursorCopy c sql f, x) \<in> set (trace s')"
  shows "fdata f = staged task (rows task)"
proof -
  have truthy: "task_table task \<noteq> []" "columns task \<noteq> []"
    using run ev by (auto simp: run_def init_def split: if_splits)
  from run truthy show ?thesis
  proof (cases rule: run_cases)
    case (no_target e)
    with ev show ?thesis by (simp add: ok_def)
  next
    case (no_connection tgt e)
    with ev show ?thesis by (simp add: ok_def connect_call_def)
  next
    case (staging_failed tgt c' k)
    with ev show ?thesis
      by (auto simp: ok_def connect_call_def exits_def dest!: writes_calls)
  next
    case (loop_failed tgt c' evs e)
    with ev have "(CursorCopy c sql f, x) \<in> set evs"
      by (auto simp: ok_def connect_call_def exits_def dest!: writes_calls)
    from loop_events_files[OF loop_failed(3) this] show ?thesis .
  next
    case (touched tgt c' evs s1 s2)
    from extends_touch[OF touched(4)] obtain tevs where
      t2: "trace s2 = trace s1 @ tevs" and tt: "list_all (\<lambda>ev. is_target_call (fst ev)) tevs"
      by (auto simp: extends_def)
    have "(CursorCopy c sql f, x) \<notin> set tevs"
      using tt target_call_kind[of "CursorCopy c sql f"] by (auto simp: list_all_iff)
    with ev touched(2,5) t2 have "(CursorCopy c sql f, x) \<in> set evs"
      by (auto simp: ok_def connect_call_def exits_def dest!: writes_calls)
    from loop_events_files[OF touched(3) this] show ?thesis .
  qed
qed

lemma staged_concat:
  "staged task rs = concat (map utf8_char (concat (map (rowstr task) rs)))"
  by (induction rs) (simp_all add: staged_def row_bytes_def)

section \<open>Claims\<close>

text \<open>
  C1. Retry once. If the first failure of a copy step (\<open>init_copy\<close>, \<open>cursor.copy\<close>,
  \<open>post_copy\<close>) in a run is \<open>MissingRelation\<close>, the trace of the run is: events that are
  no loop calls; the first attempt, ending in \<open>MissingRelation\<close>; \<open>reset_connection\<close>;
  then, when the reset returned, \<open>create_table\<close>; then, when that returned, one more whole
  attempt (the same \<open>try\<close> body: \<open>init_copy\<close>, \<open>cursor.copy\<close>, \<open>post_copy\<close>), followed
  by no further loop call. An exception of the reset, of \<open>create_table\<close> or of the second
  attempt (so a second \<open>MissingRelation\<close> too) is the result of \<open>run\<close>, and after it only
  the two scopes are left.
\<close>

theorem run_retries_copy_once:
  assumes run: "run drv cls task (init w) = (res, s')"
    and failed: "copy_failures (trace s') \<noteq> []"
    and first: "hd (copy_failures (trace s')) = MissingRelation"
  shows "\<exists>c pre att1 rr rest.
      trace s' = pre @ att1 @ (ResetConnection c, rr) # rest
    \<and> list_all (\<lambda>ev. \<not> is_loop_call (fst ev)) pre
    \<and> is_attempt task c (\<lambda>f. True) att1 (Inl MissingRelation)
    \<and> (case rr of
         Inl e \<Rightarrow> res = Inl e \<and> rest = exits c
       | Inr v \<Rightarrow> (\<exists>rc rest2. rest = (CreateTable c, rc) # rest2 \<and>
            (case rc of
               Inl e \<Rightarrow> res = Inl e \<and> rest2 = exits c
             | Inr v' \<Rightarrow> (\<exists>att2 r2 post. rest2 = att2 @ post
                   \<and> is_attempt task c (\<lambda>f. True) att2 r2
                   \<and> list_all (\<lambda>ev. \<not> is_loop_call (fst ev)) post
                   \<and> (\<forall>e. r2 = Inl e \<longrightarrow> res = Inl e \<and> post = exits c)))))"
proof -
  have truthy: "task_table task \<noteq> []" "columns task \<noteq> []"
    using run failed by (auto simp: run_def init_def copy_failures_def split: if_splits)
  from run truthy show ?thesis
  proof (cases rule: run_cases)
    case (no_target e)
    with failed show ?thesis by (simp add: copy_failures_def ok_def)
  next
    case (no_connection tgt e)
    with failed show ?thesis by (simp add: copy_failures_def ok_def connect_call_def)
  next
    case (staging_failed tgt c k)
    have "list_all (\<lambda>ev. \<not> is_loop_call (fst ev)) (trace s')"
      using writes_not_loop[of task "take k (rows task)"] staging_failed(4)
      by (simp add: ok_def connect_call_def exits_def)
    with failed show ?thesis by (simp add: copy_failures_not_loop)
  next
    case (loop_failed tgt c evs e)
    have tr: "trace s' = run_prefix task tgt c @ evs @ exits c"
      using loop_failed(2) by (simp add: run_prefix_def)
    note np = run_prefix_not_loop[of task tgt c]
    from loop_failed(3) show ?thesis
    proof (cases rule: loop_events.cases)
      case once
      from is_attempt_failures[OF once(1)] once(2) loop_failed(4) first failed tr
      show ?thesis
        by (auto simp: copy_failures_not_loop[OF np] copy_failures_not_loop[OF exits_not_loop])
    next
      case (reset_raised att)
      from reset_raised(2) have "is_attempt task c (\<lambda>f. True) att (Inl MissingRelation)"
        by (rule is_attempt_mono) simp
      with tr reset_raised(1) np loop_failed(4) show ?thesis
        by (intro exI[of _ c] exI[of _ "run_prefix task tgt c"] exI[of _ att]
            exI[of _ "Inl e"] exI[of _ "exits c"]) simp
    next
      case (create_raised att)
      from create_raised(2) have "is_attempt task c (\<lambda>f. True) att (Inl MissingRelation)"
        by (rule is_attempt_mono) simp
      with tr create_raised(1) np loop_failed(4) show ?thesis
        by (intro exI[of _ c] exI[of _ "run_prefix task tgt c"] exI[of _ att]
            exI[of _ "Inr RNone"] exI[of _ "(CreateTable c, Inl e) # exits c"])
          (simp add: ok_def)
    next
      case (retried att1 att2)
      from retried(2) have a1: "is_attempt task c (\<lambda>f. True) att1 (Inl MissingRelation)"
        by (rule is_attempt_mono) simp
      from retried(3) have a2: "is_attempt task c (\<lambda>f. True) att2 (Inl e)"
        by (rule is_attempt_mono) simp
      have "\<exists>att2' r2 post. att2 @ exits c = att2' @ post
                   \<and> is_attempt task c (\<lambda>f. True) att2' r2
                   \<and> list_all (\<lambda>ev. \<not> is_loop_call (fst ev)) post
                   \<and> (\<forall>e. r2 = Inl e \<longrightarrow> res = Inl e \<and> post = exits c)"
        using a2 loop_failed(4) exits_not_loop[of c]
        by (intro exI[of _ att2] exI[of _ "Inl e"] exI[of _ "exits c"]) simp
      with tr retried(1) np a1 show ?thesis
        by (intro exI[of _ c] exI[of _ "run_prefix task tgt c"] exI[of _ att1]
            exI[of _ "Inr RNone"] exI[of _ "(CreateTable c, Inr RNone) # att2 @ exits c"])
          (simp add: ok_def)
    qed
  next
    case (touched tgt c evs s1 s2)
    from extends_touch[OF touched(4)] obtain tevs where
      t2: "trace s2 = trace s1 @ tevs" and tt: "list_all (\<lambda>ev. is_target_call (fst ev)) tevs"
      by (auto simp: extends_def)
    note nt = target_events_not_loop[OF tt]
    have tr: "trace s' = run_prefix task tgt c @ evs @ tevs @ exits c"
      using touched(2,5) t2 by (simp add: run_prefix_def)
    note np = run_prefix_not_loop[of task tgt c]
    from touched(3) show ?thesis
    proof (cases rule: loop_events.cases)
      case once
      from is_attempt_failures[OF once(1)] failed tr
      show ?thesis
        by (auto simp: copy_failures_not_loop[OF np] copy_failures_not_loop[OF exits_not_loop]
            copy_failures_not_loop[OF nt])
    next
      case (retried att1 att2)
      from retried(2) have a1: "is_attempt task c (\<lambda>f. True) att1 (Inl MissingRelation)"
        by (rule is_attempt_mono) simp
      from retried(3) have a2: "is_attempt task c (\<lambda>f. True) att2 (Inr ())"
        by (rule is_attempt_mono) simp
      have "\<exists>att2' r2 post. att2 @ tevs @ exits c = att2' @ post
                   \<and> is_attempt task c (\<lambda>f. True) att2' r2
                   \<and> list_all (\<lambda>ev. \<not> is_loop_call (fst ev)) post
                   \<and> (\<forall>e. r2 = Inl e \<longrightarrow> res = Inl e \<and> post = exits c)"
        using a2 nt exits_not_loop[of c]
        by (intro exI[of _ att2] exI[of _ "Inr ()"] exI[of _ "tevs @ exits c"]) simp
      with tr retried(1) np a1 show ?thesis
        by (intro exI[of _ c] exI[of _ "run_prefix task tgt c"] exI[of _ att1]
            exI[of _ "Inr RNone"] exI[of _ "(CreateTable c, Inr RNone) # att2 @ tevs @ exits c"])
          (simp add: ok_def)
    qed
  qed
qed

theorem run_retries_copy_once_witness:
  "copy_failures (trace (snd (run scripted default_cls test_task (init retry_script))))
     = [MissingRelation, MissingRelation]
   \<and> (\<exists>c pre att1 rr rest.
      trace (snd (run scripted default_cls test_task (init retry_script)))
        = pre @ att1 @ (ResetConnection c, rr) # rest
    \<and> is_attempt test_task c (\<lambda>f. True) att1 (Inl MissingRelation))"
proof -
  let ?r = "run scripted default_cls test_task (init retry_script)"
  have a: "?r = (fst ?r, snd ?r)" by simp
  have b: "copy_failures (trace (snd ?r)) = [MissingRelation, MissingRelation]"
    by (simp add: run_eval retry_script_def copy_failures_def)
  from b have c: "copy_failures (trace (snd ?r)) \<noteq> []"
    and d: "hd (copy_failures (trace (snd ?r))) = MissingRelation"
    by simp_all
  from run_retries_copy_once[OF a c d] b show ?thesis by blast
qed





text \<open>
  C4. \<open>exists\<close> on a given connection executes the \<open>SELECT 1 FROM marker WHERE
  update_id = :uid LIMIT 1\<close> query with the target's \<open>update_id\<close> and, when the query
  returned, fetches one row. The result is \<open>True\<close> exactly when the fetch returned a row;
  it is \<open>False\<close> when it returned none, and also when the query or the fetch raised
  \<open>MissingRelation\<close>; any other exception of either is raised. Without a connection,
  \<open>exists\<close> first opens one and goes on in the same way.
\<close>

theorem exists_iff_row_found:
  assumes "exists drv tgt (Some c) s = (res, s')"
  shows "((\<exists>e. trace s' = trace s @ [(select_call tgt c, Inl e)]
              \<and> res = (if e = MissingRelation then Inr False else Inl e))
        \<or> (\<exists>e. trace s' = trace s @ [ok (select_call tgt c), (Fetchone c, Inl e)]
              \<and> res = (if e = MissingRelation then Inr False else Inl e))
        \<or> (\<exists>row. trace s' = trace s @ [ok (select_call tgt c), (Fetchone c, Inr (RRow row))]
              \<and> res = Inr (row \<noteq> None)))
       \<and> (res = Inr True) =
           (\<exists>row. trace s' = trace s @ [ok (select_call tgt c), (Fetchone c, Inr (RRow (Some row)))])
       \<and> select_call tgt c =
           Execute c (lit ''SELECT 1 FROM '' @ marker_table tgt @ lit '' WHERE update_id = :uid LIMIT 1'')
             (Some [(lit ''uid'', ParamStr (update_id tgt))])
       \<and> exists drv tgt None = seq (connect drv tgt) (\<lambda>c. exists drv tgt (Some c))"
  using assms
proof (cases rule: exists_cases)
  case (query_raised e)
  then show ?thesis
    by (auto simp: select_call_def select_sql_def lit_def exists_def ok_def seq_def lift_def fun_eq_iff
        split: prod.splits sum.splits)
next
  case (fetch_raised e)
  then show ?thesis
    by (auto simp: select_call_def select_sql_def lit_def exists_def ok_def seq_def lift_def fun_eq_iff
        split: prod.splits sum.splits)
next
  case (fetched row)
  then show ?thesis
    by (auto simp: select_call_def select_sql_def lit_def exists_def ok_def seq_def lift_def fun_eq_iff
        split: prod.splits sum.splits)
qed

theorem exists_iff_row_found_witness:
  "exists scripted test_target (Some 7) (init [Inl MissingRelation])
     = (Inr False, \<lparr>trace = [(select_call test_target 7, Inl MissingRelation)], world = []\<rparr>)
   \<and> select_call test_target 7 =
       Execute 7 (lit ''SELECT 1 FROM '' @ marker_table test_target
                    @ lit '' WHERE update_id = :uid LIMIT 1'')
         (Some [(lit ''uid'', ParamStr (update_id test_target))])"
proof -
  have a: "exists scripted test_target (Some 7) (init [Inl MissingRelation])
     = (Inr False, \<lparr>trace = [(select_call test_target 7, Inl MissingRelation)], world = []\<rparr>)"
    by (simp add: run_eval select_call_def)
  from exists_iff_row_found[OF a] a show ?thesis by blast
qed

text \<open>
  C5. \<open>create_marker_table\<close> opens a connection of its own with the target's parameters
  (an exception of \<open>connect\<close> is its result); on that connection it executes the marker
  table's \<open>CREATE TABLE\<close> statement, without parameters, and then leaves the connection.
  \<open>DuplicateObject\<close> from the statement is swallowed (the result is a normal return),
  every other exception of the statement is the result. The statement's \<open>inserted\<close>
  column is \<open>TIMESTAMP DEFAULT NOW()\<close> when \<open>use_db_timestamps\<close> holds and \<open>TIMESTAMP\<close>
  otherwise.
\<close>

theorem create_marker_table_own_connection:
  assumes "create_marker_table drv tgt s = (res, s')"
  shows "((\<exists>e. res = Inl e \<and> trace s' = trace s @ [(connect_call tgt, Inl e)]) \<or>
          (\<exists>c x. trace s' = trace s @ [(connect_call tgt, Inr (RConn c)),
                     (Execute c (marker_ddl tgt) None, x), ok (ConnExit c)]
             \<and> res = (case x of Inl e \<Rightarrow> if e = DuplicateObject then Inr () else Inl e
                              | Inr v \<Rightarrow> Inr ())))
       \<and> marker_ddl tgt = lit ''CREATE TABLE '' @ marker_table tgt
            @ lit '' (update_id VARCHAR PRIMARY KEY, target_table VARCHAR, inserted TIMESTAMP''
            @ (if use_db_timestamps tgt then lit '' DEFAULT NOW()'' else []) @ lit '')''"
proof
  from assms show "(\<exists>e. res = Inl e \<and> trace s' = trace s @ [(connect_call tgt, Inl e)]) \<or>
          (\<exists>c x. trace s' = trace s @ [(connect_call tgt, Inr (RConn c)),
                     (Execute c (marker_ddl tgt) None, x), ok (ConnExit c)]
             \<and> res = (case x of Inl e \<Rightarrow> if e = DuplicateObject then Inr () else Inl e
                              | Inr v \<Rightarrow> Inr ()))"
    by (cases rule: create_marker_table_cases) blast+
  show "marker_ddl tgt = lit ''CREATE TABLE '' @ marker_table tgt
            @ lit '' (update_id VARCHAR PRIMARY KEY, target_table VARCHAR, inserted TIMESTAMP''
            @ (if use_db_timestamps tgt then lit '' DEFAULT NOW()'' else []) @ lit '')''"
    by (simp add: marker_ddl_def lit_def)
qed

theorem create_marker_table_own_connection_witness:
  "create_marker_table scripted test_target (init [Inr (RConn 8), Inl DuplicateObject])
     = (Inr (), \<lparr>trace = [(connect_call test_target, Inr (RConn 8)),
                          (Execute 8 (marker_ddl test_target) None, Inl DuplicateObject),
                          ok (ConnExit 8)], world = []\<rparr>)
   \<and> marker_ddl test_target = lit ''CREATE TABLE '' @ marker_table test_target
            @ lit '' (update_id VARCHAR PRIMARY KEY, target_table VARCHAR, inserted TIMESTAMP''
            @ (if use_db_timestamps test_target then lit '' DEFAULT NOW()'' else []) @ lit '')''"
proof -
  have a: "create_marker_table scripted test_target (init [Inr (RConn 8), Inl DuplicateObject])
     = (Inr (), \<lparr>trace = [(connect_call test_target, Inr (RConn 8)),
                          (Execute 8 (marker_ddl test_target) None, Inl DuplicateObject),
                          ok (ConnExit 8)], world = []\<rparr>)"
    by (simp add: run_eval connect_call_def ok_def)
  from create_marker_table_own_connection[OF a] a show ?thesis by blast
qed

text \<open>
  C6. When no text to be written holds a lone surrogate (which \<open>encode\<close> rejects), the
  loop over the rows leaves in the temporary file exactly the concatenation, in row
  order, of the UTF-8 bytes of each row's \<open>column_separator.join(map_column(v) ...)\<close>
  followed by a newline, one \<open>write\<close> per row; \<open>map_column\<close> gives the empty string for
  a field found in \<open>null_values\<close> and \<open>text_type\<close> of the field otherwise. Decoding the
  file's bytes gives back the text that was written, code point for code point, so
  multi-byte characters survive. In every run the file handed to \<open>cursor.copy\<close> has these
  contents.
\<close>

theorem staged_buffer_is_encoded_rows:
  assumes enc: "list_all (\<lambda>row. list_all encodable (rowstr task row)) (rows task)"
  shows "stage_rows task (rows task) \<lparr>fdata = [], fpos = 0\<rparr> s
           = (Inr \<lparr>fdata = staged task (rows task), fpos = length (staged task (rows task))\<rparr>,
              s\<lparr>trace := trace s @ writes task (rows task)\<rparr>)
       \<and> staged task (rows task)
           = concat (map (\<lambda>row. concat (map utf8_char
                (join (column_separator task) (map (map_column task) row) @ [10]))) (rows task))
       \<and> (\<forall>v. map_column task v = (if py_in v (null_values task) then [] else text_type v))
       \<and> utf8_decode (staged task (rows task))
           = Some (concat (map (\<lambda>row. join (column_separator task) (map (map_column task) row) @ [10])
                (rows task)))
       \<and> (\<forall>drv cls w res s' c sql f x.
             run drv cls task (init w) = (res, s') \<and> (CursorCopy c sql f, x) \<in> set (trace s')
               \<longrightarrow> fdata f = staged task (rows task))"
proof (intro conjI)
  have "at_end \<lparr>fdata = [], fpos = 0\<rparr>" by (simp add: at_end_def)
  from stage_rows_ok[OF enc this, of s]
  show "stage_rows task (rows task) \<lparr>fdata = [], fpos = 0\<rparr> s
           = (Inr \<lparr>fdata = staged task (rows task), fpos = length (staged task (rows task))\<rparr>,
              s\<lparr>trace := trace s @ writes task (rows task)\<rparr>)"
    by simp
  show "staged task (rows task)
           = concat (map (\<lambda>row. concat (map utf8_char
                (join (column_separator task) (map (map_column task) row) @ [10]))) (rows task))"
    by (simp add: staged_def row_bytes_def[abs_def] rowstr_def newline_def)
  show "\<forall>v. map_column task v = (if py_in v (null_values task) then [] else text_type v)"
    by (simp add: map_column_def)
  have "list_all encodable (concat (map (rowstr task) (rows task)))"
    using enc by (auto simp: list_all_iff)
  from utf8_roundtrip[OF this]
  show "utf8_decode (staged task (rows task))
           = Some (concat (map (\<lambda>row. join (column_separator task) (map (map_column task) row) @ [10])
                (rows task)))"
    by (simp add: staged_concat rowstr_def[abs_def] newline_def)
  show "\<forall>drv cls w res s' c sql f x.
             run drv cls task (init w) = (res, s') \<and> (CursorCopy c sql f, x) \<in> set (trace s')
               \<longrightarrow> fdata f = staged task (rows task)"
    by (auto dest: run_copy_files)
qed

theorem staged_buffer_is_encoded_rows_witness:
  "list_all (\<lambda>row. list_all encodable (rowstr test_task row)) (rows test_task)
   \<and> staged test_task (rows test_task)
       = [102, 111, 111, 9, 49, 50, 51, 10, 9, 45, 49, 48, 48, 10,
          195, 169, 209, 134, 210, 175, 230, 136, 145, 9, 48, 10]
   \<and> utf8_decode (staged test_task (rows test_task))
       = Some (concat (map (\<lambda>row. join (column_separator test_task)
                                   (map (map_column test_task) row) @ [10]) (rows test_task)))"
proof -
  have a: "list_all (\<lambda>row. list_all encodable (rowstr test_task row)) (rows test_task)"
    by (simp add: run_eval)
  have b: "staged test_task (rows test_task)
       = [102, 111, 111, 9, 49, 50, 51, 10, 9, 45, 49, 48, 48, 10,
          195, 169, 209, 134, 210, 175, 230, 136, 145, 9, 48, 10]"
    by (simp add: run_eval staged_def row_bytes_def)
  from staged_buffer_is_encoded_rows[OF a] a b show ?thesis by blast
qed






text \<open>
  C9. The constructor unpacks \<open>host.split(':')\<close> into two names, so a host string with
  a port separator and a further colon is not split: for the bracketed IPv6 address
  \<open>[::1]:5433\<close> the constructor raises \<open>ValueError\<close>, and no target exists to connect
  with.
\<close>

theorem bracketed_ipv6_host_raises:
  "VerticaTarget default_cls (lit ''[::1]:5433'') (lit ''vertica'') (lit ''dbadmin'') [] 
     (lit ''test_table'') (lit ''TestVerticaTask()'') PNone = Inl ValueError"
  by (simp add: VerticaTarget_def lit_def colon_def)

text \<open>
  What the constructor does do: a host with exactly one colon is split at it, the port
  part is kept as text (a \<open>port\<close> argument is ignored), and \<open>connect\<close> hands both to
  the driver; every host with more than one colon raises \<open>ValueError\<close>.
\<close>

theorem host_port_split:
  "(count_list host' colon = 1 \<longrightarrow>
      (\<exists>h p. host' = h @ colon # p \<and> colon \<notin> set h \<and> colon \<notin> set p
         \<and> VerticaTarget cls host' db u pw tb uid prt =
             Inr \<lparr>host = h, port = PStr p, database = db, user = u, password = pw, table = tb,
                  update_id = uid, marker_table = cls_marker_table cls,
                  use_db_timestamps = cls_use_db_timestamps cls\<rparr>
         \<and> (\<forall>tgt drv. VerticaTarget cls host' db u pw tb uid prt = Inr tgt \<longrightarrow>
               connect drv tgt =
                 perform (Connect h (PStr p) db u pw) RConn (drv_connect drv h (PStr p) db u pw))))
   \<and> (1 < count_list host' colon \<longrightarrow> VerticaTarget cls host' db u pw tb uid prt = Inl ValueError)"
proof (intro conjI impI)
  assume "count_list host' colon = 1"
  from count_one_split[OF this] obtain h p where
    hp: "host' = h @ colon # p" "colon \<notin> set h" "colon \<notin> set p" by blast
  then have sp: "split_on colon host' = [h, p]"
    by (simp add: split_on_first split_on_none)
  have v: "VerticaTarget cls host' db u pw tb uid prt =
             Inr \<lparr>host = h, port = PStr p, database = db, user = u, password = pw, table = tb,
                  update_id = uid, marker_table = cls_marker_table cls,
                  use_db_timestamps = cls_use_db_timestamps cls\<rparr>"
    using hp(1) sp by (simp add: VerticaTarget_def)
  then have "\<forall>tgt drv. VerticaTarget cls host' db u pw tb uid prt = Inr tgt \<longrightarrow>
               connect drv tgt =
                 perform (Connect h (PStr p) db u pw) RConn (drv_connect drv h (PStr p) db u pw)"
    by (auto simp: connect_def)
  with hp v show "\<exists>h p. host' = h @ colon # p \<and> colon \<notin> set h \<and> colon \<notin> set p
         \<and> VerticaTarget cls host' db u pw tb uid prt =
             Inr \<lparr>host = h, port = PStr p, database = db, user = u, password = pw, table = tb,
                  update_id = uid, marker_table = cls_marker_table cls,
                  use_db_timestamps = cls_use_db_timestamps cls\<rparr>
         \<and> (\<forall>tgt drv. VerticaTarget cls host' db u pw tb uid prt = Inr tgt \<longrightarrow>
               connect drv tgt =
                 perform (Connect h (PStr p) db u pw) RConn (drv_connect drv h (PStr p) db u pw))"
    by blast
next
  assume a: "1 < count_list host' colon"
  then have "colon \<in> set host'" by (metis count_list_0_iff not_less_zero)
  moreover from a have "length (split_on colon host') \<noteq> 2" by (simp add: split_on_length)
  then have "(case split_on colon host' of [h, p] \<Rightarrow> Inr (f h p) | _ \<Rightarrow> Inl ValueError) = Inl ValueError" for f :: "ustr \<Rightarrow> ustr \<Rightarrow> target"
    by (auto split: list.splits)
  ultimately show "VerticaTarget cls host' db u pw tb uid prt = Inl ValueError"
    by (simp add: VerticaTarget_def)
qed

theorem host_port_split_witness:
  "count_list (lit ''localhost:5433'') colon = 1
   \<and> VerticaTarget default_cls (lit ''localhost:5433'') (lit ''vertica'') (lit ''dbadmin'') []
        (lit ''test_table'') (lit ''TestVerticaTask()'') PNone
      = Inr (test_target\<lparr>port := PStr (lit ''5433'')\<rparr>)
   \<and> (\<exists>h p. lit ''localhost:5433'' = h @ colon # p \<and> colon \<notin> set h \<and> colon \<notin> set p)"
proof -
  have a: "count_list (lit ''localhost:5433'') colon = 1" by (simp add: lit_def colon_def)
  have b: "VerticaTarget default_cls (lit ''localhost:5433'') (lit ''vertica'') (lit ''dbadmin'') []
        (lit ''test_table'') (lit ''TestVerticaTask()'') PNone
      = Inr (test_target\<lparr>port := PStr (lit ''5433'')\<rparr>)"
    by (simp add: VerticaTarget_def lit_def colon_def test_target_def default_cls_def)
  from host_port_split[of "lit ''localhost:5433''" default_cls "lit ''vertica''" "lit ''dbadmin''" "[]"
      "lit ''test_table''" "lit ''TestVerticaTask()''" PNone] a b
  show ?thesis by blast
qed

text \<open>
  C10. A task whose \<open>table\<close> or \<open>columns\<close> attribute is empty makes \<open>run\<close> raise
  \<open>Exception("table and columns need to be specified")\<close> at once: the state, trace
  included, is the one \<open>run\<close> was called in, so no temporary file was created, no
  connection opened, no row staged and no statement executed.
\<close>

theorem run_requires_table_and_columns:
  assumes "task_table task = [] \<or> columns task = []"
  shows "run drv cls task s = (Inl SpecifyTableColumns, s)"
  using assms by (auto simp: run_def)

theorem run_requires_table_and_columns_witness:
  "columns (test_task\<lparr>columns := []\<rparr>) = [] \<and>
   run scripted default_cls (test_task\<lparr>columns := []\<rparr>) (init [Inr (RConn 7)])
     = (Inl SpecifyTableColumns, init [Inr (RConn 7)])"
  using run_requires_table_and_columns [of "test_task\<lparr>columns := []\<rparr>" scripted default_cls
      "init [Inr (RConn 7)]"]
  by simp

end
